theory Spec2Isabelle
  imports Complex_Main "HOL-Library.Sublist" "HOL-Library.AList"
begin

section \<open>Run-time values\<close>

text \<open>
  The condition values and the request context are typed \<^verbatim>\<open>unknown\<close> in
  \<^verbatim>\<open>types.ts\<close>: any JavaScript value. A number is an IEEE double; the code only
  compares numbers, so a number is modelled by its place in the order: not-a-number, the
  two infinities, or a finite value (every finite double is a rational; the two zeros
  compare equal under every operation used here). Arrays and other objects carry a
  reference, since \<^verbatim>\<open>===\<close> compares objects by identity.
\<close>

datatype jsnum = NaN | NegInf | Fin rat | PosInf

datatype jsval =
    JUndefined
  | JNull
  | JBool bool
  | JNum jsnum
  | JStr string
  | JArr nat "jsval list"
  | JObj nat

text \<open>The relational operators \<^verbatim>\<open>a <= b\<close> and \<^verbatim>\<open>a < b\<close> on two numbers; a comparison with
  NaN is false.\<close>

fun num_le :: "jsnum \<Rightarrow> jsnum \<Rightarrow> bool" where
  "num_le NaN b = False"
| "num_le a NaN = False"
| "num_le NegInf b = True"
| "num_le a PosInf = True"
| "num_le (Fin a) (Fin b) = (a \<le> b)"
| "num_le a b = False"

fun num_lt :: "jsnum \<Rightarrow> jsnum \<Rightarrow> bool" where
  "num_lt NaN b = False"
| "num_lt a NaN = False"
| "num_lt (Fin a) (Fin b) = (a < b)"
| "num_lt PosInf b = False"
| "num_lt a NegInf = False"
| "num_lt a b = True"

text \<open>\<^verbatim>\<open>a >= b\<close> and \<^verbatim>\<open>a > b\<close> are the same comparisons with the operands swapped.\<close>

definition num_ge :: "jsnum \<Rightarrow> jsnum \<Rightarrow> bool" where
  "num_ge a b = num_le b a"

definition num_gt :: "jsnum \<Rightarrow> jsnum \<Rightarrow> bool" where
  "num_gt a b = num_lt b a"

text \<open>Equality of two numbers: NaN equals nothing, not even itself.\<close>

fun num_eq :: "jsnum \<Rightarrow> jsnum \<Rightarrow> bool" where
  "num_eq NaN b = False"
| "num_eq a NaN = False"
| "num_eq a b = (a = b)"

text \<open>Strict equality \<^verbatim>\<open>===\<close>: same type and same value; objects by reference.\<close>

fun strict_eq :: "jsval \<Rightarrow> jsval \<Rightarrow> bool" where
  "strict_eq JUndefined JUndefined = True"
| "strict_eq JNull JNull = True"
| "strict_eq (JBool a) (JBool b) = (a = b)"
| "strict_eq (JNum a) (JNum b) = num_eq a b"
| "strict_eq (JStr a) (JStr b) = (a = b)"
| "strict_eq (JArr r xs) (JArr r' ys) = (r = r')"
| "strict_eq (JObj r) (JObj r') = (r = r')"
| "strict_eq a b = False"

text \<open>\<^verbatim>\<open>Array.prototype.includes\<close> compares with SameValueZero, which differs from
  \<^verbatim>\<open>===\<close> only in that NaN equals NaN.\<close>

fun same_value_zero :: "jsval \<Rightarrow> jsval \<Rightarrow> bool" where
  "same_value_zero (JNum NaN) (JNum NaN) = True"
| "same_value_zero a b = strict_eq a b"

definition array_includes :: "jsval list \<Rightarrow> jsval \<Rightarrow> bool" where
  "array_includes xs v = list_ex (\<lambda>x. same_value_zero x v) xs"

text \<open>\<^verbatim>\<open>String.prototype.includes\<close>: the argument occurs as a contiguous run.\<close>

definition string_includes :: "string \<Rightarrow> string \<Rightarrow> bool" where
  "string_includes s t = sublist t s"

section \<open>Data model (types.ts)\<close>

text \<open>
  \<^verbatim>\<open>ActorType\<close>, \<^verbatim>\<open>PermissionAction\<close> and the condition operator are unions of
  string literals: strings at run time, compared by the code as strings. They are kept as
  strings, so that a value outside the union (an operator the switch does not list, the
  actor type \<^verbatim>\<open>'*'\<close> that the code casts) can be written down. The fields have the
  names of \<^verbatim>\<open>types.ts\<close>, but for \<^verbatim>\<open>id\<close> (here \<open>policyId\<close>), \<^verbatim>\<open>type\<close> (\<open>atype\<close>),
  \<^verbatim>\<open>value\<close> (\<open>cvalue\<close>) and \<^verbatim>\<open>context\<close> (\<open>ctx\<close>), which are names of the logic or
  of its commands.
\<close>

type_synonym ActorType = string
type_synonym PermissionAction = string

record PermissionCondition =
  field :: string
  operator :: string
  cvalue :: jsval

record ActorMatcher =
  atype :: ActorType
  pattern :: string

datatype Effect = Allow | Deny

record PolicyRule =
  effect :: Effect
  actors :: "ActorMatcher list"
  resources :: "string list"
  actions :: "PermissionAction list"
  conditions :: "PermissionCondition list option"

text \<open>
  A context is a plain object: the map holds its own properties. Behind them a lookup
  finds the members that a plain object inherits from \<^verbatim>\<open>Object.prototype\<close>: functions,
  and under \<^verbatim>\<open>__proto__\<close> the prototype itself, each an object with a reference of its
  own. A key that is neither an own property nor inherited reads as \<^verbatim>\<open>undefined\<close>.
\<close>

type_synonym Context = "string \<rightharpoonup> jsval"

definition object_prototype :: "(string \<times> jsval) list" where
  "object_prototype =
    [(''constructor'', JObj 0), (''__proto__'', JObj 1), (''hasOwnProperty'', JObj 2),
     (''isPrototypeOf'', JObj 3), (''propertyIsEnumerable'', JObj 4),
     (''toLocaleString'', JObj 5), (''toString'', JObj 6), (''valueOf'', JObj 7),
     (''__defineGetter__'', JObj 8), (''__defineSetter__'', JObj 9),
     (''__lookupGetter__'', JObj 10), (''__lookupSetter__'', JObj 11)]"

definition ctx_get :: "Context \<Rightarrow> string \<Rightarrow> jsval" where
  "ctx_get c k =
    (case c k of
       Some v \<Rightarrow> v
     | None \<Rightarrow> (case map_of object_prototype k of None \<Rightarrow> JUndefined | Some v \<Rightarrow> v))"

record PermissionCheckOptions =
  actorId :: string
  actorType :: ActorType
  resource :: string
  action :: PermissionAction
  ctx :: "Context option"

record Policy =
  policyId :: string
  tenantId :: string
  name :: string
  description :: "string option"
  rules :: "PolicyRule list"
  priority :: int
  enabled :: bool
  createdAt :: nat

section \<open>Condition evaluation (PolicyEngine.matchesConditions)\<close>

definition is_number :: "jsval \<Rightarrow> bool" where
  "is_number v = (case v of JNum n \<Rightarrow> True | _ \<Rightarrow> False)"

definition is_string :: "jsval \<Rightarrow> bool" where
  "is_string v = (case v of JStr s \<Rightarrow> True | _ \<Rightarrow> False)"

definition is_array :: "jsval \<Rightarrow> bool" where
  "is_array v = (case v of JArr r xs \<Rightarrow> True | _ \<Rightarrow> False)"

definition the_num :: "jsval \<Rightarrow> jsnum" where
  "the_num v = (case v of JNum n \<Rightarrow> n | _ \<Rightarrow> NaN)"

definition the_str :: "jsval \<Rightarrow> string" where
  "the_str v = (case v of JStr s \<Rightarrow> s | _ \<Rightarrow> [])"

definition the_elems :: "jsval \<Rightarrow> jsval list" where
  "the_elems v = (case v of JArr r xs \<Rightarrow> xs | _ \<Rightarrow> [])"

text \<open>
  One pass through the body of the loop: \<open>condition_rejects c v\<close> is true when the
  switch executes \<^verbatim>\<open>return false\<close> for condition \<open>c\<close> and context value \<open>v\<close>, and
  false when it reaches \<^verbatim>\<open>break\<close>. The switch has no \<^verbatim>\<open>default\<close> branch, so an
  operator that no \<^verbatim>\<open>case\<close> lists falls through to the next condition.
\<close>

definition condition_rejects :: "PermissionCondition \<Rightarrow> jsval \<Rightarrow> bool" where
  "condition_rejects c v =
    (if operator c = ''eq'' then \<not> strict_eq v (cvalue c)
     else if operator c = ''neq'' then strict_eq v (cvalue c)
     else if operator c = ''in'' then
       \<not> is_array (cvalue c) \<or> \<not> array_includes (the_elems (cvalue c)) v
     else if operator c = ''nin'' then
       is_array (cvalue c) \<and> array_includes (the_elems (cvalue c)) v
     else if operator c = ''gt'' then
       (if \<not> is_number v \<or> \<not> is_number (cvalue c) then True
        else num_le (the_num v) (the_num (cvalue c)))
     else if operator c = ''lt'' then
       (if \<not> is_number v \<or> \<not> is_number (cvalue c) then True
        else num_ge (the_num v) (the_num (cvalue c)))
     else if operator c = ''contains'' then
       (if \<not> is_string v \<or> \<not> is_string (cvalue c) then True
        else \<not> string_includes (the_str v) (the_str (cvalue c)))
     else False)"

fun matchesConditions :: "PermissionCondition list \<Rightarrow> Context \<Rightarrow> bool" where
  "matchesConditions [] c = True"
| "matchesConditions (cond # conds) c =
     (if condition_rejects cond (ctx_get c (field cond)) then False
      else matchesConditions conds c)"

section \<open>Pattern matching (PolicyEngine.matchesPattern)\<close>

text \<open>
  A string is a list of characters; the model covers the code units below 256. The
  first \<^verbatim>\<open>replace\<close> puts a backslash before each character of the class
  \<^verbatim>\<open>[.+?^${}()|[\]\\]\<close>, the second turns each star into \<^verbatim>\<open>.*\<close>.
\<close>

definition backslash :: char where
  "backslash = CHR 0x5C"

definition escaped_chars :: "char list" where
  "escaped_chars = ''.+?^${}()|[]'' @ [backslash]"

definition escapeSpecial :: "string \<Rightarrow> string" where
  "escapeSpecial p = concat (map (\<lambda>c. if c \<in> set escaped_chars then [backslash, c] else [c]) p)"

definition starToDotStar :: "string \<Rightarrow> string" where
  "starToDotStar s = concat (map (\<lambda>c. if c = CHR ''*'' then ''.*'' else [c]) s)"

definition regexPattern :: "string \<Rightarrow> string" where
  "regexPattern p = starToDotStar (escapeSpecial p)"

text \<open>
  The built-in \<^verbatim>\<open>RegExp\<close>, for the regular expressions this code can build: a sequence
  of the two anchors, literal characters (written plainly or as a backslash followed by
  a syntax character) and \<^verbatim>\<open>.*\<close>. The constructor is \<open>None\<close> on any other source text.
  The model follows the grammar of the language: the limit that an engine puts on the
  size of an expression, beyond which the constructor throws, is not modelled, and
  nothing below says that \<^verbatim>\<open>matchesPattern\<close> cannot throw.
\<close>

datatype atom = Bol | Eol | Lit char | AnyStar

definition syntax_chars :: "char list" where
  "syntax_chars = ''^$.*+?()[]{}|'' @ [backslash]"

fun RegExp :: "string \<Rightarrow> atom list option" where
  "RegExp [] = Some []"
| "RegExp [c] =
     (if c = CHR ''^'' then Some [Bol]
      else if c = CHR ''$'' then Some [Eol]
      else if c \<in> set syntax_chars then None
      else Some [Lit c])"
| "RegExp (c # d # ds) =
     (if c = backslash then
        (if d \<in> set syntax_chars then map_option ((#) (Lit d)) (RegExp ds) else None)
      else if c = CHR ''.'' then
        (if d = CHR ''*'' then map_option ((#) AnyStar) (RegExp ds) else None)
      else if c = CHR ''^'' then map_option ((#) Bol) (RegExp (d # ds))
      else if c = CHR ''$'' then map_option ((#) Eol) (RegExp (d # ds))
      else if c \<in> set syntax_chars then None
      else map_option ((#) (Lit c)) (RegExp (d # ds)))"

text \<open>The dot of a regular expression without the \<^verbatim>\<open>s\<close> flag matches any character
  except a line terminator: line feed and carriage return (and U+2028, U+2029, which lie
  outside the characters modelled).\<close>

definition lineTerminator :: "char \<Rightarrow> bool" where
  "lineTerminator c = (c = CHR 0x0A \<or> c = CHR 0x0D)"

text \<open>\<open>matchHere re b s\<close>: the atoms \<open>re\<close> match a prefix of the remaining input \<open>s\<close>;
  \<open>b\<close> says whether \<open>s\<close> is the whole input (the position is 0). Without the \<^verbatim>\<open>m\<close>
  flag \<^verbatim>\<open>^\<close> holds only at position 0 and \<^verbatim>\<open>$\<close> only at the end of the input.\<close>

fun matchHere :: "atom list \<Rightarrow> bool \<Rightarrow> string \<Rightarrow> bool" where
  "matchHere [] b s = True"
| "matchHere (Bol # re) b s = (b \<and> matchHere re b s)"
| "matchHere (Eol # re) b s = (s = [] \<and> matchHere re b s)"
| "matchHere (Lit c # re) b [] = False"
| "matchHere (Lit c # re) b (d # s) = (c = d \<and> matchHere re False s)"
| "matchHere (AnyStar # re) b [] = matchHere re b []"
| "matchHere (AnyStar # re) b (d # s) =
     (matchHere re b (d # s) \<or> (\<not> lineTerminator d \<and> matchHere (AnyStar # re) False s))"

text \<open>\<^verbatim>\<open>regex.test(value)\<close>: a match starting at some position of the input.\<close>

definition test :: "atom list \<Rightarrow> string \<Rightarrow> bool" where
  "test re s = list_ex (\<lambda>k. matchHere re (k = 0) (drop k s)) [0..<Suc (length s)]"

text \<open>Where the constructor of the model is \<open>None\<close> the code would throw; the model
  gives that branch the value \<open>False\<close>, and by the grammar it is not reached for any
  pattern (lemma \<open>regex_parses\<close>).\<close>

definition matchesPattern :: "string \<Rightarrow> string \<Rightarrow> bool" where
  "matchesPattern p v =
    (if p = ''*'' then True
     else case RegExp (''^'' @ regexPattern p @ ''$'') of
            None \<Rightarrow> False
          | Some re \<Rightarrow> test re v)"

section \<open>Rule matching (PolicyEngine.matchesRule)\<close>

fun matchesActor :: "ActorMatcher list \<Rightarrow> ActorType \<Rightarrow> string \<Rightarrow> bool" where
  "matchesActor [] t i = False"
| "matchesActor (a # as) t i =
     (if atype a \<noteq> t \<and> atype a \<noteq> ''*'' then matchesActor as t i
      else if matchesPattern (pattern a) i then True
      else matchesActor as t i)"

fun matchesResource :: "string list \<Rightarrow> string \<Rightarrow> bool" where
  "matchesResource [] r = False"
| "matchesResource (p # ps) r =
     (if matchesPattern p r then True else matchesResource ps r)"

definition matchesAction :: "PermissionAction list \<Rightarrow> PermissionAction \<Rightarrow> bool" where
  "matchesAction as a = (List.member as ''*'' \<or> List.member as a)"

definition matchesRule :: "PolicyRule \<Rightarrow> PermissionCheckOptions \<Rightarrow> bool" where
  "matchesRule rule options =
    (if \<not> matchesActor (actors rule) (actorType options) (actorId options) then False
     else if \<not> matchesResource (resources rule) (resource options) then False
     else if \<not> matchesAction (actions rule) (action options) then False
     else case conditions rule of
            None \<Rightarrow> True
          | Some cs \<Rightarrow>
              if cs \<noteq> [] then
                (if \<not> matchesConditions cs (case ctx options of None \<Rightarrow> Map.empty | Some c \<Rightarrow> c)
                 then False else True)
              else True)"

section \<open>The policy store (PolicyEngine)\<close>

text \<open>
  \<^verbatim>\<open>policies\<close> is a Map from id to policy; \<^verbatim>\<open>tenantPolicies\<close> maps a tenant to a Set
  of ids. A JavaScript Set iterates in insertion order, so it is a list without
  duplicates: \<^verbatim>\<open>add\<close> appends an element that is not yet there, \<^verbatim>\<open>delete\<close> removes it.
\<close>

record PolicyEngine =
  policies :: "string \<rightharpoonup> Policy"
  tenantPolicies :: "string \<rightharpoonup> string list"

definition newPolicyEngine :: PolicyEngine where
  "newPolicyEngine = \<lparr>policies = Map.empty, tenantPolicies = Map.empty\<rparr>"

definition set_add :: "string list \<Rightarrow> string \<Rightarrow> string list" where
  "set_add s x = (if x \<in> set s then s else s @ [x])"

definition set_delete :: "string list \<Rightarrow> string \<Rightarrow> string list" where
  "set_delete s x = removeAll x s"

record CreateOptions =
  opt_description :: "string option"
  opt_priority :: "int option"
  opt_enabled :: "bool option"

text \<open>
  \<open>nid\<close> is the value \<^verbatim>\<open>nanoid()\<close> returns and \<open>now\<close> the value of \<^verbatim>\<open>new Date()\<close>;
  both come from outside the program. The function returns the policy and the new store.
\<close>

definition createPolicy ::
  "PolicyEngine \<Rightarrow> string \<Rightarrow> string \<Rightarrow> PolicyRule list \<Rightarrow> CreateOptions option \<Rightarrow>
     string \<Rightarrow> nat \<Rightarrow> Policy \<times> PolicyEngine" where
  "createPolicy e tid nm rs options nid now =
    (let policy = \<lparr>policyId = nid, tenantId = tid, name = nm,
                    description = (case options of None \<Rightarrow> None | Some opt \<Rightarrow> opt_description opt),
                    rules = rs,
                    priority = (case options of None \<Rightarrow> 0
                                | Some opt \<Rightarrow> (case opt_priority opt of None \<Rightarrow> 0 | Some n \<Rightarrow> n)),
                    enabled = (case options of None \<Rightarrow> True
                               | Some opt \<Rightarrow> (case opt_enabled opt of None \<Rightarrow> True | Some b \<Rightarrow> b)),
                    createdAt = now\<rparr>;
         tenantSet = (case tenantPolicies e tid of None \<Rightarrow> [] | Some s \<Rightarrow> s)
     in (policy, \<lparr>policies = (policies e)(nid \<mapsto> policy),
                  tenantPolicies = (tenantPolicies e)(tid \<mapsto> set_add tenantSet nid)\<rparr>))"

definition getPolicy :: "PolicyEngine \<Rightarrow> string \<Rightarrow> Policy option" where
  "getPolicy e i = policies e i"

text \<open>
  The object passed as \<^verbatim>\<open>updates\<close>: each key may be absent (\<open>None\<close>). Its static type
  omits \<^verbatim>\<open>id\<close>, \<^verbatim>\<open>tenantId\<close> and \<^verbatim>\<open>createdAt\<close>, but an object that carries them
  type-checks when it is not a fresh literal (the policy that \<^verbatim>\<open>getPolicy\<close> returns, for
  one), and the spread \<^verbatim>\<open>{ ...policy, ...updates }\<close> copies every key that is present:
  the three keys are part of the record. The one field of a policy that may hold
  \<^verbatim>\<open>undefined\<close> is \<^verbatim>\<open>description\<close>, and a key \<^verbatim>\<open>description\<close> present with that value
  overwrites. A key of another field present with the value \<^verbatim>\<open>undefined\<close>, which the
  static type also admits, would store an object that is no \<^verbatim>\<open>Policy\<close> (its priority,
  say, undefined); the record \<open>Policy\<close> has no such value and such an update is not
  among the inputs of the model.
\<close>

record PolicyUpdates =
  upd_id :: "string option"
  upd_tenantId :: "string option"
  upd_name :: "string option"
  upd_description :: "string option option"
  upd_rules :: "PolicyRule list option"
  upd_priority :: "int option"
  upd_enabled :: "bool option"
  upd_createdAt :: "nat option"

definition merge_updates :: "Policy \<Rightarrow> PolicyUpdates \<Rightarrow> Policy" where
  "merge_updates p u =
    \<lparr>policyId = (case upd_id u of None \<Rightarrow> policyId p | Some x \<Rightarrow> x),
     tenantId = (case upd_tenantId u of None \<Rightarrow> tenantId p | Some x \<Rightarrow> x),
     name = (case upd_name u of None \<Rightarrow> name p | Some x \<Rightarrow> x),
     description = (case upd_description u of None \<Rightarrow> description p | Some x \<Rightarrow> x),
     rules = (case upd_rules u of None \<Rightarrow> rules p | Some x \<Rightarrow> x),
     priority = (case upd_priority u of None \<Rightarrow> priority p | Some x \<Rightarrow> x),
     enabled = (case upd_enabled u of None \<Rightarrow> enabled p | Some x \<Rightarrow> x),
     createdAt = (case upd_createdAt u of None \<Rightarrow> createdAt p | Some x \<Rightarrow> x)\<rparr>"

definition updatePolicy ::
  "PolicyEngine \<Rightarrow> string \<Rightarrow> PolicyUpdates \<Rightarrow> Policy option \<times> PolicyEngine" where
  "updatePolicy e i u =
    (case policies e i of
       None \<Rightarrow> (None, e)
     | Some policy \<Rightarrow>
         (let updated = merge_updates policy u
          in (Some updated, e\<lparr>policies := (policies e)(i \<mapsto> updated)\<rparr>)))"

definition deletePolicy :: "PolicyEngine \<Rightarrow> string \<Rightarrow> bool \<times> PolicyEngine" where
  "deletePolicy e i =
    (case policies e i of
       None \<Rightarrow> (False, e)
     | Some policy \<Rightarrow>
         (let e1 = e\<lparr>policies := (policies e)(i := None)\<rparr>
          in (True,
              (case tenantPolicies e1 (tenantId policy) of
                 None \<Rightarrow> e1
               | Some tenantSet \<Rightarrow>
                   e1\<lparr>tenantPolicies :=
                        (tenantPolicies e1)(tenantId policy \<mapsto> set_delete tenantSet i)\<rparr>))))"

text \<open>
  \<^verbatim>\<open>Array.prototype.sort\<close> is stable, and with the comparator
  \<^verbatim>\<open>b.priority - a.priority\<close> on integer priorities it sorts by descending priority:
  a stable sort on the negated priority.
\<close>

definition listPolicies :: "PolicyEngine \<Rightarrow> string \<Rightarrow> Policy list" where
  "listPolicies e tid =
    (case tenantPolicies e tid of
       None \<Rightarrow> []
     | Some tenantSet \<Rightarrow>
         sort_key (\<lambda>p. - priority p)
           (map the (filter (\<lambda>x. x \<noteq> None) (map (policies e) tenantSet))))"

text \<open>The built-in policies.\<close>

definition createAdminPolicy :: "PolicyEngine \<Rightarrow> string \<Rightarrow> string \<Rightarrow> nat \<Rightarrow> Policy \<times> PolicyEngine" where
  "createAdminPolicy e tid nid now =
    createPolicy e tid ''Admin Full Access''
      [\<lparr>effect = Allow, actors = [\<lparr>atype = ''user'', pattern = ''*''\<rparr>],
        resources = [''*''], actions = [''*''],
        conditions = Some [\<lparr>field = ''role'', operator = ''eq'', cvalue = JStr ''admin''\<rparr>]\<rparr>]
      (Some \<lparr>opt_description = Some ''Full access for admin users'',
             opt_priority = Some 100, opt_enabled = None\<rparr>)
      nid now"

definition createAgentPolicy :: "PolicyEngine \<Rightarrow> string \<Rightarrow> string \<Rightarrow> nat \<Rightarrow> Policy \<times> PolicyEngine" where
  "createAgentPolicy e tid nid now =
    createPolicy e tid ''Agent Default Access''
      [\<lparr>effect = Allow, actors = [\<lparr>atype = ''agent'', pattern = ''*''\<rparr>],
        resources = [''task:*'', ''memory:*'', ''vault:*''],
        actions = [''read'', ''create'', ''update'', ''execute''],
        conditions = None\<rparr>,
       \<lparr>effect = Deny, actors = [\<lparr>atype = ''agent'', pattern = ''*''\<rparr>],
        resources = [''user:*'', ''tenant:*'', ''policy:*''],
        actions = [''*''],
        conditions = None\<rparr>]
      (Some \<lparr>opt_description = Some ''Default access for agents'',
             opt_priority = Some 50, opt_enabled = None\<rparr>)
      nid now"

section \<open>Evaluation (PolicyEngine.evaluate)\<close>

record PolicyEvalResult =
  allowed :: bool
  reason :: string
  matchedPolicy :: "string option"
  matchedRule :: "nat option"

text \<open>The decimal digits of a number, as a template literal prints it.\<close>

function show_nat :: "nat \<Rightarrow> string" where
  "show_nat n =
    (if n < 10 then [''0123456789'' ! n]
     else show_nat (n div 10) @ [''0123456789'' ! (n mod 10)])"
  by pat_completeness auto
termination
  by (relation "measure (\<lambda>n. n)") auto

declare show_nat.simps [simp del]

definition dquote :: char where
  "dquote = CHR 0x22"

definition matched_reason :: "Policy \<Rightarrow> nat \<Rightarrow> string" where
  "matched_reason policy i =
     ''Matched policy '' @ [dquote] @ name policy @ [dquote] @ '' rule '' @ show_nat (i + 1)"

text \<open>The inner loop, from index \<open>i\<close> on: the result of the first matching rule, or
  \<open>None\<close> when the loop ends without a \<^verbatim>\<open>return\<close>.\<close>

function scanRules :: "Policy \<Rightarrow> nat \<Rightarrow> PermissionCheckOptions \<Rightarrow> PolicyEvalResult option" where
  "scanRules policy i options =
    (if i < length (rules policy) then
       (let rule = rules policy ! i in
        if matchesRule rule options then
          Some \<lparr>allowed = (effect rule = Allow),
                reason = matched_reason policy i,
                matchedPolicy = Some (policyId policy),
                matchedRule = Some i\<rparr>
        else scanRules policy (Suc i) options)
     else None)"
  by pat_completeness auto
termination
  by (relation "measure (\<lambda>(policy, i, options). length (rules policy) - i)") auto

declare scanRules.simps [simp del]

fun scanPolicies :: "Policy list \<Rightarrow> PermissionCheckOptions \<Rightarrow> PolicyEvalResult option" where
  "scanPolicies [] options = None"
| "scanPolicies (policy # ps) options =
     (case scanRules policy 0 options of
        Some r \<Rightarrow> Some r
      | None \<Rightarrow> scanPolicies ps options)"

definition evaluate :: "PolicyEngine \<Rightarrow> string \<Rightarrow> PermissionCheckOptions \<Rightarrow> PolicyEvalResult" where
  "evaluate e tid options =
    (let ps = filter enabled (listPolicies e tid) in
     if length ps = 0 then
       \<lparr>allowed = False, reason = ''No policies defined'',
        matchedPolicy = None, matchedRule = None\<rparr>
     else case scanPolicies ps options of
            Some r \<Rightarrow> r
          | None \<Rightarrow> \<lparr>allowed = False, reason = ''No matching policy rule (default deny)'',
                     matchedPolicy = None, matchedRule = None\<rparr>)"

section \<open>The audit log (AuditLogger)\<close>

datatype AuditResult = Success | Denied | Error

record AuditDetails =
  det_reason :: string
  det_matchedPolicy :: "string option"
  det_context :: "Context option"

record AuditEntry =
  entry_id :: nat
  entry_tenantId :: "string option"
  entry_actorId :: string
  entry_actorType :: ActorType
  entry_action :: string
  entry_resource :: string
  entry_result :: AuditResult
  entry_details :: AuditDetails

record AuditLogger =
  entries :: "AuditEntry list"

definition newAuditLogger :: AuditLogger where
  "newAuditLogger = \<lparr>entries = []\<rparr>"

text \<open>
  Modelled from the spec: \<^verbatim>\<open>AuditLogger.log\<close>, whose file \<^verbatim>\<open>AuditLogger.ts\<close> is
  missing. The spec (4.4): it "assigns id + timestamp, appends to an append-only
  sequence, returns the stored record". The id assigned is the position of the entry in
  the sequence; the timestamp, read from the wall clock, is left out of the record.
\<close>

definition log_entry ::
  "AuditLogger \<Rightarrow> string \<Rightarrow> ActorType \<Rightarrow> string \<Rightarrow> string \<Rightarrow> AuditResult \<Rightarrow> AuditDetails \<Rightarrow>
     string option \<Rightarrow> AuditEntry \<times> AuditLogger" where
  "log_entry l aid aty act res r details tid =
    (let entry = \<lparr>entry_id = length (entries l), entry_tenantId = tid, entry_actorId = aid,
                   entry_actorType = aty, entry_action = act, entry_resource = res,
                   entry_result = r, entry_details = details\<rparr>
     in (entry, l\<lparr>entries := entries l @ [entry]\<rparr>))"

section \<open>The facade (PermissionAPI)\<close>

record PermissionAPIConfig =
  cfg_defaultDeny :: "bool option"
  cfg_auditAll :: "bool option"

record PermissionAPI =
  policyEngine :: PolicyEngine
  auditLogger :: AuditLogger
  defaultDeny :: bool
  auditAll :: bool

definition newPermissionAPI :: "PermissionAPIConfig option \<Rightarrow> PermissionAPI" where
  "newPermissionAPI config =
    \<lparr>policyEngine = newPolicyEngine,
     auditLogger = newAuditLogger,
     defaultDeny = (case config of None \<Rightarrow> True
                    | Some c \<Rightarrow> (case cfg_defaultDeny c of None \<Rightarrow> True | Some b \<Rightarrow> b)),
     auditAll = (case config of None \<Rightarrow> True
                 | Some c \<Rightarrow> (case cfg_auditAll c of None \<Rightarrow> True | Some b \<Rightarrow> b))\<rparr>"

definition check :: "PermissionAPI \<Rightarrow> string \<Rightarrow> PermissionCheckOptions \<Rightarrow> bool \<times> PermissionAPI" where
  "check api tid options =
    (let result = evaluate (policyEngine api) tid options in
     if auditAll api \<or> \<not> allowed result then
       (allowed result,
        api\<lparr>auditLogger :=
          snd (log_entry (auditLogger api) (actorId options) (actorType options)
                 (action options) (resource options)
                 (if allowed result then Success else Denied)
                 \<lparr>det_reason = reason result, det_matchedPolicy = matchedPolicy result,
                  det_context = ctx options\<rparr>
                 (Some tid))\<rparr>)
     else (allowed result, api))"

text \<open>
  The result of \<^verbatim>\<open>checkMultiple\<close> is a Map from string to boolean. \<^verbatim>\<open>Map.set\<close> on
  a key that is present replaces its value in place, and adds a new key at the end:
  the update of an association list.
\<close>

definition request_key :: "PermissionCheckOptions \<Rightarrow> string" where
  "request_key c = actorId c @ '':'' @ action c @ '':'' @ resource c"

definition map_set :: "(string \<times> bool) list \<Rightarrow> string \<Rightarrow> bool \<Rightarrow> (string \<times> bool) list" where
  "map_set m k v = AList.update k v m"

fun checkMultiple_loop ::
  "PermissionAPI \<Rightarrow> string \<Rightarrow> PermissionCheckOptions list \<Rightarrow> (string \<times> bool) list \<Rightarrow>
     (string \<times> bool) list \<times> PermissionAPI" where
  "checkMultiple_loop api tid [] results = (results, api)"
| "checkMultiple_loop api tid (c # cs) results =
     (let key = request_key c;
          r = check api tid c
      in checkMultiple_loop (snd r) tid cs (map_set results key (fst r)))"

definition checkMultiple ::
  "PermissionAPI \<Rightarrow> string \<Rightarrow> PermissionCheckOptions list \<Rightarrow> (string \<times> bool) list \<times> PermissionAPI" where
  "checkMultiple api tid checks = checkMultiple_loop api tid checks []"

section \<open>Sequences of store operations\<close>

datatype store_op =
    Create string string "PolicyRule list" "CreateOptions option" string nat
  | Update string PolicyUpdates
  | Delete string

fun apply_op :: "PolicyEngine \<Rightarrow> store_op \<Rightarrow> PolicyEngine" where
  "apply_op e (Create tid nm rs options nid now) = snd (createPolicy e tid nm rs options nid now)"
| "apply_op e (Update i u) = snd (updatePolicy e i u)"
| "apply_op e (Delete i) = snd (deletePolicy e i)"

definition run :: "store_op list \<Rightarrow> PolicyEngine" where
  "run ops = foldl apply_op newPolicyEngine ops"

text \<open>The ids that \<^verbatim>\<open>nanoid()\<close> returned, in the order of the calls.\<close>

fun created_ids :: "store_op list \<Rightarrow> string list" where
  "created_ids [] = []"
| "created_ids (Create tid nm rs options nid now # ops) = nid # created_ids ops"
| "created_ids (x # ops) = created_ids ops"

section \<open>Vocabulary of the properties\<close>

text \<open>The operators of the union type of \<^verbatim>\<open>PermissionCondition.operator\<close>.\<close>

definition known_operators :: "string list" where
  "known_operators = [''eq'', ''neq'', ''in'', ''nin'', ''gt'', ''lt'', ''contains'']"

text \<open>The atom that \<^verbatim>\<open>matchesPattern\<close> builds for one character of a pattern.\<close>

definition glob_atom :: "char \<Rightarrow> atom" where
  "glob_atom c = (if c = CHR ''*'' then AnyStar else Lit c)"

text \<open>
  The reading of a pattern in the words of the spec: the whole subject is matched, a star
  stands for any run of characters, possibly empty, and every other character stands for
  itself. \<open>glob_run ok\<close> restricts the characters a star may stand for to those that
  satisfy \<open>ok\<close>; \<open>glob\<close> puts no restriction.
\<close>

fun glob_run :: "(char \<Rightarrow> bool) \<Rightarrow> string \<Rightarrow> string \<Rightarrow> bool" where
  "glob_run ok [] s = (s = [])"
| "glob_run ok (c # p) s =
     (if c = CHR ''*'' then
        list_ex (\<lambda>k. list_all ok (take k s) \<and> glob_run ok p (drop k s)) [0..<Suc (length s)]
      else (case s of [] \<Rightarrow> False | d # t \<Rightarrow> d = c \<and> glob_run ok p t))"

definition glob :: "string \<Rightarrow> string \<Rightarrow> bool" where
  "glob p s = glob_run (\<lambda>c. True) p s"

text \<open>A store for the examples: the two built-in policies of tenant \<^verbatim>\<open>t1\<close>, the agent
  policy created first, and a request of an agent.\<close>

definition default_engine :: PolicyEngine where
  "default_engine =
     snd (createAdminPolicy (snd (createAgentPolicy newPolicyEngine ''t1'' ''p1'' 0)) ''t1'' ''p2'' 0)"

definition agent_request :: "string \<Rightarrow> string \<Rightarrow> PermissionCheckOptions" where
  "agent_request res act =
     \<lparr>actorId = ''a7'', actorType = ''agent'', resource = res, action = act, ctx = None\<rparr>"

text \<open>A facade with \<^verbatim>\<open>auditAll: false\<close> over the example store.\<close>

definition quiet_api :: PermissionAPI where
  "quiet_api =
     (newPermissionAPI (Some \<lparr>cfg_defaultDeny = None, cfg_auditAll = Some False\<rparr>))
       \<lparr>policyEngine := default_engine\<rparr>"

text \<open>A facade with the default configuration over the example store, and two requests
  that differ only in the actor type.\<close>

definition loud_api :: PermissionAPI where
  "loud_api = (newPermissionAPI None)\<lparr>policyEngine := default_engine\<rparr>"

definition typed_request :: "string \<Rightarrow> PermissionCheckOptions" where
  "typed_request t =
     \<lparr>actorId = ''x1'', actorType = t, resource = ''task:9'', action = ''read'', ctx = None\<rparr>"

text \<open>
  The invariant of the store, relative to the list \<open>seen\<close> of the ids created so far:
  a stored policy carries its own id and is indexed under its tenant; the index of a
  tenant lists, in the order of creation, ids of stored policies of that tenant.
\<close>

definition store_inv :: "PolicyEngine \<Rightarrow> string list \<Rightarrow> bool" where
  "store_inv e seen \<longleftrightarrow>
     (\<forall>i p. policies e i = Some p \<longrightarrow>
        policyId p = i \<and> (\<exists>s. tenantPolicies e (tenantId p) = Some s \<and> i \<in> set s))
   \<and> (\<forall>t s. tenantPolicies e t = Some s \<longrightarrow>
        filter (\<lambda>i. i \<in> set s) seen = s
        \<and> (\<forall>i\<in>set s. \<exists>p. policies e i = Some p \<and> tenantId p = t))"

text \<open>A sequence of operations for the examples: five policies for two tenants, one of
  them updated, one deleted.\<close>

definition with_priority :: "int \<Rightarrow> CreateOptions option" where
  "with_priority n = Some \<lparr>opt_description = None, opt_priority = Some n, opt_enabled = None\<rparr>"

definition example_ops :: "store_op list" where
  "example_ops =
    [Create ''t1'' ''A'' [] (with_priority 5) ''p1'' 0,
     Create ''t1'' ''B'' [] (with_priority 9) ''p2'' 1,
     Create ''t2'' ''X'' [] (with_priority 7) ''p3'' 2,
     Create ''t1'' ''C'' [] (with_priority 5) ''p4'' 3,
     Create ''t1'' ''D'' [] None ''p5'' 4,
     Update ''p5'' \<lparr>upd_id = None, upd_tenantId = None, upd_name = None,
                   upd_description = None, upd_rules = None, upd_priority = Some 5,
                   upd_enabled = None, upd_createdAt = None\<rparr>,
     Delete ''p4'']"


text \<open>A rule whose condition has an operator outside the union, and a request of a
  user whose role is \<^verbatim>\<open>guest\<close>.\<close>

definition unchecked_rule :: PolicyRule where
  "unchecked_rule =
     \<lparr>effect = Allow, actors = [\<lparr>atype = ''user'', pattern = ''*''\<rparr>], resources = [''*''],
      actions = [''*''],
      conditions = Some [\<lparr>field = ''role'', operator = ''regex'', cvalue = JStr ''adm.*''\<rparr>]\<rparr>"

definition guest_request :: PermissionCheckOptions where
  "guest_request =
     \<lparr>actorId = ''u1'', actorType = ''user'', resource = ''doc:1'', action = ''delete'',
      ctx = Some [''role'' \<mapsto> JStr ''guest'']\<rparr>"

text \<open>An operation that leaves the identity of policies alone: an update of it carries
  neither the key \<^verbatim>\<open>id\<close> nor the key \<^verbatim>\<open>tenantId\<close>.\<close>

fun keeps_identity :: "store_op \<Rightarrow> bool" where
  "keeps_identity (Update i u) = (upd_id u = None \<and> upd_tenantId u = None)"
| "keeps_identity x = True"

text \<open>A policy object passed as \<^verbatim>\<open>updates\<close>: every key is present.\<close>

definition as_updates :: "Policy \<Rightarrow> PolicyUpdates" where
  "as_updates p =
     \<lparr>upd_id = Some (policyId p), upd_tenantId = Some (tenantId p), upd_name = Some (name p),
      upd_description = Some (description p), upd_rules = Some (rules p),
      upd_priority = Some (priority p), upd_enabled = Some (enabled p),
      upd_createdAt = Some (createdAt p)\<rparr>"

text \<open>One policy for each of two tenants; and the same followed by an update of the
  first policy with the object \<^verbatim>\<open>{name: 'N', tenantId: 't2'}\<close>.\<close>

definition two_tenants :: "store_op list" where
  "two_tenants =
    [Create ''t1'' ''A'' [] (with_priority 5) ''p1'' 0,
     Create ''t2'' ''B'' [] (with_priority 5) ''p2'' 1]"

definition retenant_ops :: "store_op list" where
  "retenant_ops =
    two_tenants @
    [Update ''p1'' \<lparr>upd_id = None, upd_tenantId = Some ''t2'', upd_name = Some ''N'',
                   upd_description = None, upd_rules = None, upd_priority = None,
                   upd_enabled = None, upd_createdAt = None\<rparr>]"

chapter \<open>Properties\<close>

section \<open>Conditions: operators outside the union, and numeric comparison\<close>

lemma condition_rejects_unknown:
  "operator c \<notin> set known_operators \<Longrightarrow> \<not> condition_rejects c v"
  by (simp add: condition_rejects_def known_operators_def)

lemma matchesConditions_append:
  "matchesConditions (xs @ ys) k = (matchesConditions xs k \<and> matchesConditions ys k)"
  by (induction xs) simp_all

lemma matchesConditions_skip:
  assumes "operator c \<notin> set known_operators"
  shows "matchesConditions (cs1 @ c # cs2) k = matchesConditions (cs1 @ cs2) k"
  using condition_rejects_unknown [OF assms] by (simp add: matchesConditions_append)

text \<open>
  Claim C2, as amended. The claim says that a condition whose operator is none of
  \<^verbatim>\<open>eq, neq, in, nin, gt, lt, contains\<close> never matches. The type
  \<^verbatim>\<open>PermissionCondition\<close> admits no such operator, and the switch of
  \<^verbatim>\<open>matchesConditions\<close> has no \<^verbatim>\<open>default\<close> branch: if such a condition reaches it,
  the condition is skipped. A condition list matches exactly when it matches with that
  condition removed, and so does a rule that carries the list.
\<close>

theorem unknown_operator_skipped:
  assumes "operator c \<notin> set known_operators"
  shows "matchesConditions (cs1 @ c # cs2) k = matchesConditions (cs1 @ cs2) k
       \<and> matchesRule (r\<lparr>conditions := Some (cs1 @ c # cs2)\<rparr>) req
         = matchesRule (r\<lparr>conditions := Some (cs1 @ cs2)\<rparr>) req"
proof -
  have skip: "\<And>k. matchesConditions (cs1 @ c # cs2) k = matchesConditions (cs1 @ cs2) k"
    using assms by (rule matchesConditions_skip)
  have single: "cs1 @ cs2 = [] \<Longrightarrow> matchesConditions (cs1 @ c # cs2) k'" for k'
    using skip [of k'] by simp
  show ?thesis
    using skip single by (simp add: matchesRule_def)
qed

text \<open>An instance: the operator \<^verbatim>\<open>regex\<close> after an \<^verbatim>\<open>eq\<close> condition that holds. The
  list matches and the rule matches, although the context role is \<^verbatim>\<open>guest\<close>.\<close>

theorem unknown_operator_skipped_witness:
  "operator \<lparr>field = ''role'', operator = ''regex'', cvalue = JStr ''adm.*''\<rparr> \<notin> set known_operators
   \<and> matchesConditions
        ([\<lparr>field = ''dept'', operator = ''eq'', cvalue = JStr ''ops''\<rparr>]
          @ \<lparr>field = ''role'', operator = ''regex'', cvalue = JStr ''adm.*''\<rparr> # [])
        [''dept'' \<mapsto> JStr ''ops'', ''role'' \<mapsto> JStr ''guest'']
   \<and> matchesRule
        \<lparr>effect = Allow, actors = [\<lparr>atype = ''user'', pattern = ''*''\<rparr>], resources = [''*''],
         actions = [''*''],
         conditions = Some ([\<lparr>field = ''dept'', operator = ''eq'', cvalue = JStr ''ops''\<rparr>]
                        @ \<lparr>field = ''role'', operator = ''regex'', cvalue = JStr ''adm.*''\<rparr> # [])\<rparr>
        \<lparr>actorId = ''u1'', actorType = ''user'', resource = ''doc:1'', action = ''read'',
         ctx = Some [''dept'' \<mapsto> JStr ''ops'', ''role'' \<mapsto> JStr ''guest'']\<rparr>"
  using unknown_operator_skipped
    [of "\<lparr>field = ''role'', operator = ''regex'', cvalue = JStr ''adm.*''\<rparr>"
        "[\<lparr>field = ''dept'', operator = ''eq'', cvalue = JStr ''ops''\<rparr>]" "[]"
        "[''dept'' \<mapsto> JStr ''ops'', ''role'' \<mapsto> JStr ''guest'']"
        "\<lparr>effect = Allow, actors = [\<lparr>atype = ''user'', pattern = ''*''\<rparr>], resources = [''*''],
         actions = [''*''], conditions = None\<rparr>"
        "\<lparr>actorId = ''u1'', actorType = ''user'', resource = ''doc:1'', action = ''read'',
         ctx = Some [''dept'' \<mapsto> JStr ''ops'', ''role'' \<mapsto> JStr ''guest'']\<rparr>"]
  by (simp add: known_operators_def condition_rejects_def ctx_get_def object_prototype_def matchesRule_def
        matchesPattern_def matchesAction_def)

text \<open>The claim as stated fails: a rule whose only condition has the operator
  \<^verbatim>\<open>regex\<close> matches a request.\<close>

theorem unknown_operator_matches:
  "matchesConditions [\<lparr>field = ''role'', operator = ''regex'', cvalue = JStr ''adm.*''\<rparr>]
      [''role'' \<mapsto> JStr ''guest'']
   \<and> matchesRule
        \<lparr>effect = Allow, actors = [\<lparr>atype = ''user'', pattern = ''*''\<rparr>], resources = [''*''],
         actions = [''*''],
         conditions = Some [\<lparr>field = ''role'', operator = ''regex'', cvalue = JStr ''adm.*''\<rparr>]\<rparr>
        \<lparr>actorId = ''u1'', actorType = ''user'', resource = ''doc:1'', action = ''read'',
         ctx = Some [''role'' \<mapsto> JStr ''guest'']\<rparr>"
  by (simp add: condition_rejects_def ctx_get_def object_prototype_def matchesRule_def matchesPattern_def
        matchesAction_def)

text \<open>What \<^verbatim>\<open>gt\<close> and \<^verbatim>\<open>lt\<close> accept: both values are numbers and the negated
  comparison of the code fails. Away from NaN that is the strict comparison.\<close>

lemma gt_condition_iff:
  "operator c = ''gt'' \<Longrightarrow>
     (\<not> condition_rejects c v) = (\<exists>a b. v = JNum a \<and> cvalue c = JNum b \<and> \<not> num_le a b)"
  by (cases v; cases "cvalue c") (simp_all add: condition_rejects_def is_number_def the_num_def)

lemma lt_condition_iff:
  "operator c = ''lt'' \<Longrightarrow>
     (\<not> condition_rejects c v) = (\<exists>a b. v = JNum a \<and> cvalue c = JNum b \<and> \<not> num_ge a b)"
  by (cases v; cases "cvalue c") (simp_all add: condition_rejects_def is_number_def the_num_def)

lemma not_le_iff_gt: "a \<noteq> NaN \<Longrightarrow> b \<noteq> NaN \<Longrightarrow> (\<not> num_le a b) = num_gt a b"
  by (cases a; cases b) (auto simp: num_gt_def)

lemma not_ge_iff_lt: "a \<noteq> NaN \<Longrightarrow> b \<noteq> NaN \<Longrightarrow> (\<not> num_ge a b) = num_lt a b"
  by (cases a; cases b) (auto simp: num_ge_def)

lemma inherited_not_number:
  "\<not> is_number (case map_of object_prototype f of None \<Rightarrow> JUndefined | Some v \<Rightarrow> v)"
  by (simp add: object_prototype_def is_number_def)

lemma gt_lt_missing_field:
  "operator c = ''gt'' \<or> operator c = ''lt'' \<Longrightarrow> k (field c) = None \<Longrightarrow>
     \<not> matchesConditions (cs1 @ c # cs2) k"
  using inherited_not_number [of "field c"]
  by (auto simp: matchesConditions_append condition_rejects_def ctx_get_def)

lemma gt_score_examples:
  "\<not> matchesConditions [\<lparr>field = ''score'', operator = ''gt'', cvalue = JNum (Fin 10)\<rparr>]
       [''score'' \<mapsto> JNum (Fin 5)]"
  "matchesConditions [\<lparr>field = ''score'', operator = ''gt'', cvalue = JNum (Fin 10)\<rparr>]
       [''score'' \<mapsto> JNum (Fin 15)]"
  by (simp_all add: condition_rejects_def ctx_get_def object_prototype_def is_number_def the_num_def)

text \<open>
  Claim C5. The claim says that a \<^verbatim>\<open>gt\<close> condition matches only when both values are
  numbers and the strict comparison holds. The code tests \<^verbatim>\<open>value <= condition.value\<close>
  and returns false when it holds; for the context value NaN, whose \<^verbatim>\<open>typeof\<close> is
  \<^verbatim>\<open>number\<close>, that test is false, and the condition \<^verbatim>\<open>score > 10\<close> matches although
  NaN is not greater than 10. The same holds of \<^verbatim>\<open>lt\<close>, which tests
  \<^verbatim>\<open>value >= condition.value\<close>.
\<close>

theorem gt_condition_matches_nan:
  "matchesConditions [\<lparr>field = ''score'', operator = ''gt'', cvalue = JNum (Fin 10)\<rparr>]
       [''score'' \<mapsto> JNum NaN]
   \<and> \<not> num_gt NaN (Fin 10)
   \<and> matchesConditions [\<lparr>field = ''score'', operator = ''lt'', cvalue = JNum (Fin 10)\<rparr>]
       [''score'' \<mapsto> JNum NaN]
   \<and> \<not> num_lt NaN (Fin 10)"
  by (simp add: condition_rejects_def ctx_get_def object_prototype_def is_number_def the_num_def num_gt_def
        num_ge_def)

section \<open>Patterns: the regular expression built, and what it accepts\<close>

lemma escaped_subset_syntax: "c \<in> set escaped_chars \<Longrightarrow> c \<in> set syntax_chars"
  by (auto simp: escaped_chars_def syntax_chars_def)

lemma syntax_chars_cases:
  "c \<in> set syntax_chars \<longleftrightarrow> c \<in> set escaped_chars \<or> c = CHR ''*''"
  by (auto simp: escaped_chars_def syntax_chars_def)

lemma RegExp_plain:
  "c \<notin> set syntax_chars \<Longrightarrow> RegExp (c # s) = map_option ((#) (Lit c)) (RegExp s)"
  by (cases s) (auto simp: syntax_chars_def backslash_def)

lemma RegExp_escape:
  "d \<in> set syntax_chars \<Longrightarrow> RegExp (backslash # d # s) = map_option ((#) (Lit d)) (RegExp s)"
  by simp

lemma RegExp_dot_star:
  "RegExp (CHR ''.'' # CHR ''*'' # s) = map_option ((#) AnyStar) (RegExp s)"
  by (simp add: backslash_def)

lemma regexPattern_Cons:
  "regexPattern (c # p) =
     (if c \<in> set escaped_chars then [backslash, c]
      else if c = CHR ''*'' then ''.*'' else [c]) @ regexPattern p"
  by (auto simp: regexPattern_def escapeSpecial_def starToDotStar_def escaped_chars_def backslash_def)

lemma RegExp_regexPattern:
  "RegExp (regexPattern p @ rest) = map_option ((@) (map glob_atom p)) (RegExp rest)"
proof (induction p)
  case Nil
  show ?case by (simp add: regexPattern_def escapeSpecial_def starToDotStar_def option.map_ident)
next
  case (Cons c p)
  consider (esc) "c \<in> set escaped_chars" | (star) "c \<notin> set escaped_chars" "c = CHR ''*''"
    | (plain) "c \<notin> set escaped_chars" "c \<noteq> CHR ''*''" by blast
  then show ?case
  proof cases
    case esc
    then have "c \<noteq> CHR ''*''" by (auto simp: escaped_chars_def backslash_def)
    with esc Cons show ?thesis
      by (simp add: regexPattern_Cons RegExp_escape escaped_subset_syntax glob_atom_def
            option.map_comp comp_def del: RegExp.simps)
  next
    case star
    with Cons show ?thesis
      by (simp add: regexPattern_Cons RegExp_dot_star glob_atom_def option.map_comp comp_def
            del: RegExp.simps)
  next
    case plain
    then have "c \<notin> set syntax_chars" by (simp add: syntax_chars_cases)
    with plain Cons show ?thesis
      by (simp add: regexPattern_Cons RegExp_plain glob_atom_def option.map_comp comp_def
            del: RegExp.simps)
  qed
qed

text \<open>The source text that \<^verbatim>\<open>matchesPattern\<close> builds is in the grammar of the model, for
  every pattern: the anchors around one atom for each character of the pattern.\<close>

lemma regex_parses:
  "RegExp (''^'' @ regexPattern p @ ''$'') = Some (Bol # map glob_atom p @ [Eol])"
proof -
  have "RegExp (regexPattern p @ ''$'') = Some (map glob_atom p @ [Eol])"
    by (simp add: RegExp_regexPattern)
  moreover have "RegExp (''^'' @ s) = map_option ((#) Bol) (RegExp s)" for s
    by (cases s) (simp_all add: backslash_def)
  ultimately show ?thesis by simp
qed

lemma test_anchored: "test (Bol # re) s = matchHere re True s"
proof -
  have "test (Bol # re) s = (\<exists>k<Suc (length s). k = 0 \<and> matchHere re (k = 0) (drop k s))"
    by (auto simp: test_def list_ex_iff)
  also have "\<dots> = matchHere re True s" by auto
  finally show ?thesis .
qed

lemma matchHere_no_Bol:
  "Bol \<notin> set re \<Longrightarrow> matchHere re b s = matchHere re b' s"
proof (induction re b s arbitrary: b' rule: matchHere.induct)
  case (7 re b d s)
  then show ?case by (metis matchHere.simps(7) list.set_intros(2) set_ConsD atom.distinct(5))
qed auto


lemma list_ex_upt: "list_ex P [0..<Suc n] = (\<exists>k\<le>n. P k)"
  unfolding list_ex_iff set_upt by (auto simp: less_Suc_eq_le)

lemma ex_le_Suc: "(\<exists>k\<le>Suc n. P k) = (P 0 \<or> (\<exists>k\<le>n. P (Suc k)))"
  using Ex_less_Suc2 [of "Suc n" P] by (simp only: less_Suc_eq_le)

lemma glob_run_star:
  "glob_run ok (CHR ''*'' # p) s =
     (\<exists>k\<le>length s. list_all ok (take k s) \<and> glob_run ok p (drop k s))"
  by (simp only: glob_run.simps list_ex_upt simp_thms if_True)

lemma glob_run_lit:
  "c \<noteq> CHR ''*'' \<Longrightarrow>
     glob_run ok (c # p) s = (case s of [] \<Rightarrow> False | d # t \<Rightarrow> d = c \<and> glob_run ok p t)"
  by (simp only: glob_run.simps if_False)

declare glob_run.simps(2) [simp del]

lemma matchHere_AnyStar:
  assumes "Bol \<notin> set re"
  shows "matchHere (AnyStar # re) b s =
     (\<exists>k\<le>length s. list_all (\<lambda>c. \<not> lineTerminator c) (take k s) \<and> matchHere re b (drop k s))"
proof (induction s arbitrary: b)
  case Nil
  show ?case by simp
next
  case (Cons d s)
  have "matchHere (AnyStar # re) False s =
      (\<exists>k\<le>length s. list_all (\<lambda>c. \<not> lineTerminator c) (take k s) \<and> matchHere re b (drop k s))"
    using Cons [of False] matchHere_no_Bol [OF assms, of False _ b] by simp
  then show ?case
    by (auto simp: ex_le_Suc)
qed

lemma matchHere_glob:
  "matchHere (map glob_atom p @ [Eol]) b s = glob_run (\<lambda>c. \<not> lineTerminator c) p s"
proof (induction p arbitrary: b s)
  case Nil
  show ?case by simp
next
  case (Cons c p)
  show ?case
  proof (cases "c = CHR ''*''")
    case True
    have nb: "Bol \<notin> set (map glob_atom p @ [Eol])"
      by (auto simp: glob_atom_def)
    have "matchHere (AnyStar # map glob_atom p @ [Eol]) b s =
            glob_run (\<lambda>c. \<not> lineTerminator c) (CHR ''*'' # p) s"
      by (simp only: matchHere_AnyStar [OF nb] glob_run_star Cons)
    moreover have "glob_atom (CHR ''*'') = AnyStar"
      by (simp add: glob_atom_def)
    ultimately show ?thesis
      unfolding True by simp
  next
    case False
    then show ?thesis
      using Cons by (cases s) (auto simp: glob_atom_def glob_run_lit)
  qed
qed

text \<open>What the code accepts: the pattern \<^verbatim>\<open>*\<close> accepts every subject; in any other
  pattern a star stands for a run of characters free of line terminators.\<close>

lemma matchesPattern_glob:
  "matchesPattern p v = (p = ''*'' \<or> glob_run (\<lambda>c. \<not> lineTerminator c) p v)"
  unfolding matchesPattern_def regex_parses by (simp add: test_anchored matchHere_glob)

lemma glob_run_cong:
  "(\<And>c. c \<in> set s \<Longrightarrow> ok c = ok' c) \<Longrightarrow> glob_run ok p s = glob_run ok' p s"
proof (induction p arbitrary: s)
  case Nil
  show ?case by simp
next
  case (Cons c p)
  have run: "list_all ok (take k s) = list_all ok' (take k s)" for k
    using Cons.prems by (auto simp: list_all_iff dest: in_set_takeD)
  have rest: "glob_run ok p (drop k s) = glob_run ok' p (drop k s)" for k
    using Cons.prems by (intro Cons.IH) (auto dest: in_set_dropD)
  show ?case
  proof (cases "c = CHR ''*''")
    case True
    then show ?thesis by (simp only: glob_run_star run rest)
  next
    case False
    then show ?thesis
      using rest [of 1] rest [of 0] by (cases s) (simp_all add: glob_run_lit)
  qed
qed

lemma glob_star: "glob ''*'' s"
  unfolding glob_def glob_run_star by (rule exI [of _ "length s"]) (simp add: list_all_iff)

text \<open>On a subject free of line terminators the code agrees with the reading of the
  spec, for every pattern.\<close>

lemma matchesPattern_glob_plain:
  assumes "\<And>c. c \<in> set v \<Longrightarrow> \<not> lineTerminator c"
  shows "matchesPattern p v = glob p v"
proof -
  have "glob_run (\<lambda>c. \<not> lineTerminator c) p v = glob p v"
    unfolding glob_def using assms by (intro glob_run_cong) simp
  then show ?thesis
    using glob_star [of v] by (auto simp: matchesPattern_glob)
qed


lemma task_star_examples:
  "matchesPattern ''task:*'' ''task:''"
  "matchesPattern ''task:*'' ''task:123''"
  "matchesPattern ''task:*'' ''task:123:sub''"
  "\<not> matchesPattern ''task:*'' ''tasks:1''"
  "\<not> matchesPattern ''task:*'' ''xtask:1''"
  by (simp_all add: matchesPattern_def regexPattern_def starToDotStar_def escapeSpecial_def
        escaped_chars_def backslash_def syntax_chars_def test_def lineTerminator_def)

text \<open>
  Claim C4. The claim says that a star stands for any run of characters. The code turns
  a star into \<^verbatim>\<open>.*\<close>, and the dot of a regular expression matches no line terminator:
  the pattern \<^verbatim>\<open>task:*\<close> rejects the subject \<^verbatim>\<open>task:\<close> followed by a line feed, which
  the reading of the spec accepts, and which the lone pattern \<^verbatim>\<open>*\<close> accepts through
  the shortcut at the head of \<^verbatim>\<open>matchesPattern\<close>.
\<close>

theorem star_stops_at_line_terminator:
  "\<not> matchesPattern ''task:*'' (''task:'' @ [CHR 0x0A])
   \<and> glob ''task:*'' (''task:'' @ [CHR 0x0A])
   \<and> matchesPattern ''*'' (''task:'' @ [CHR 0x0A])"
proof -
  have "\<not> matchesPattern ''task:*'' (''task:'' @ [CHR 0x0A])"
    by (simp add: matchesPattern_def regexPattern_def starToDotStar_def escapeSpecial_def
          escaped_chars_def backslash_def syntax_chars_def test_def lineTerminator_def)
  moreover have "glob ''task:*'' (''task:'' @ [CHR 0x0A])"
    by (simp add: glob_def glob_run.simps)
  moreover have "matchesPattern ''*'' (''task:'' @ [CHR 0x0A])"
    by (simp add: matchesPattern_def)
  ultimately show ?thesis by blast
qed

section \<open>Evaluation: the first matching rule decides\<close>

lemma scanRules_None:
  "(\<And>k. i \<le> k \<Longrightarrow> k < length (rules p) \<Longrightarrow> \<not> matchesRule (rules p ! k) req) \<Longrightarrow>
     scanRules p i req = None"
proof (induction p i req rule: scanRules.induct)
  case (1 policy i options)
  show ?case
  proof (cases "i < length (rules policy)")
    case True
    then have "\<not> matchesRule (rules policy ! i) options"
      using "1.prems" [of i] by simp
    moreover have "scanRules policy (Suc i) options = None"
      using True \<open>\<not> matchesRule (rules policy ! i) options\<close> "1.prems"
      by (intro "1.IH") auto
    ultimately show ?thesis
      using True by (subst scanRules.simps) simp
  next
    case False
    then show ?thesis by (subst scanRules.simps) simp
  qed
qed


lemma scanRules_no_match:
  assumes "\<And>r. r \<in> set (rules q) \<Longrightarrow> \<not> matchesRule r req"
  shows "scanRules q i req = None"
proof (rule scanRules_None)
  fix k
  assume "k < length (rules q)"
  then have "rules q ! k \<in> set (rules q)" by (rule nth_mem)
  then show "\<not> matchesRule (rules q ! k) req" by (rule assms)
qed

lemma scanPolicies_None:
  "(\<And>q r. q \<in> set ps \<Longrightarrow> r \<in> set (rules q) \<Longrightarrow> \<not> matchesRule r req) \<Longrightarrow>
     scanPolicies ps req = None"
proof (induction ps)
  case Nil
  show ?case by simp
next
  case (Cons q ps)
  have "scanRules q 0 req = None"
    using Cons.prems by (intro scanRules_no_match) auto
  moreover have "scanPolicies ps req = None"
    using Cons.prems by (intro Cons.IH) auto
  ultimately show ?case by simp
qed





text \<open>Evaluation on the example store.\<close>

lemmas pattern_eval = matchesPattern_def regexPattern_def starToDotStar_def escapeSpecial_def
        escaped_chars_def backslash_def syntax_chars_def test_def lineTerminator_def

lemma default_engine_list:
  "filter enabled (listPolicies default_engine ''t1'') =
     [fst (createAdminPolicy (snd (createAgentPolicy newPolicyEngine ''t1'' ''p1'' 0)) ''t1'' ''p2'' 0),
      fst (createAgentPolicy newPolicyEngine ''t1'' ''p1'' 0)]"
  by (simp add: default_engine_def createAdminPolicy_def createAgentPolicy_def createPolicy_def
        newPolicyEngine_def listPolicies_def set_add_def Let_def)



lemma example_engine_eval:
  "evaluate default_engine ''t1'' (agent_request ''user:5'' ''read'') =
       \<lparr>allowed = False,
        reason = ''Matched policy '' @ [CHR 0x22] @ ''Agent Default Access'' @ [CHR 0x22] @ '' rule 2'',
        matchedPolicy = Some ''p1'', matchedRule = Some 1\<rparr>"
  by (simp add: evaluate_def default_engine_list createAdminPolicy_def createAgentPolicy_def
        createPolicy_def agent_request_def matchesRule_def matchesAction_def pattern_eval
        scanRules.simps matched_reason_def dquote_def show_nat.simps Let_def)


section \<open>The facade: what a check writes to the audit log\<close>

lemma check_fst: "fst (check api tid req) = allowed (evaluate (policyEngine api) tid req)"
  by (simp add: check_def Let_def)

lemma check_config:
  "policyEngine (snd (check api tid req)) = policyEngine api"
  "auditAll (snd (check api tid req)) = auditAll api"
  "defaultDeny (snd (check api tid req)) = defaultDeny api"
  by (simp_all add: check_def Let_def)

text \<open>
  Claim C3. Whenever the evaluation result is not allowed, \<^verbatim>\<open>check\<close> returns false and
  appends exactly one entry to the audit log, with result \<^verbatim>\<open>denied\<close>, whatever the value
  of \<^verbatim>\<open>auditAll\<close>; when \<^verbatim>\<open>auditAll\<close> is false and the result is allowed, it writes
  no entry.
\<close>

theorem check_audits_denials:
  "(\<not> allowed (evaluate (policyEngine api) tid req) \<longrightarrow>
      \<not> fst (check api tid req)
      \<and> (\<exists>entry. entries (auditLogger (snd (check api tid req)))
                     = entries (auditLogger api) @ [entry]
                 \<and> entry_result entry = Denied))
   \<and> (allowed (evaluate (policyEngine api) tid req) \<and> \<not> auditAll api \<longrightarrow>
      fst (check api tid req)
      \<and> entries (auditLogger (snd (check api tid req))) = entries (auditLogger api))"
  by (simp add: check_def Let_def log_entry_def)

lemma example_engine_allows:
  "evaluate default_engine ''t1'' (agent_request ''task:9'' ''read'') =
       \<lparr>allowed = True,
        reason = ''Matched policy '' @ [CHR 0x22] @ ''Agent Default Access'' @ [CHR 0x22] @ '' rule 1'',
        matchedPolicy = Some ''p1'', matchedRule = Some 0\<rparr>"
  by (simp add: evaluate_def default_engine_list createAdminPolicy_def createAgentPolicy_def
        createPolicy_def agent_request_def matchesRule_def matchesAction_def pattern_eval
        scanRules.simps matched_reason_def dquote_def show_nat.simps Let_def)

text \<open>An instance with \<^verbatim>\<open>auditAll: false\<close>: a denied request leaves one entry, an
  allowed request none.\<close>

theorem check_audits_denials_witness:
  "\<not> auditAll quiet_api
   \<and> \<not> allowed (evaluate (policyEngine quiet_api) ''t1'' (agent_request ''user:5'' ''read''))
   \<and> map entry_result (entries (auditLogger (snd (check quiet_api ''t1'' (agent_request ''user:5'' ''read'')))))
       = [Denied]
   \<and> allowed (evaluate (policyEngine quiet_api) ''t1'' (agent_request ''task:9'' ''read''))
   \<and> entries (auditLogger (snd (check quiet_api ''t1'' (agent_request ''task:9'' ''read'')))) = []"
  using check_audits_denials [of quiet_api "''t1''" "agent_request ''user:5'' ''read''"]
        check_audits_denials [of quiet_api "''t1''" "agent_request ''task:9'' ''read''"]
  by (auto simp: quiet_api_def newPermissionAPI_def newAuditLogger_def example_engine_eval
        example_engine_allows)

section \<open>The facade: the flag \<^verbatim>\<open>defaultDeny\<close>\<close>

lemma evaluate_no_match_denies:
  assumes "\<And>q r. q \<in> set (filter enabled (listPolicies e tid)) \<Longrightarrow> r \<in> set (rules q) \<Longrightarrow>
             \<not> matchesRule r req"
  shows "\<not> allowed (evaluate e tid req)"
proof -
  have "scanPolicies (filter enabled (listPolicies e tid)) req = None"
    using assms by (rule scanPolicies_None)
  then show ?thesis by (simp add: evaluate_def Let_def)
qed

text \<open>
  Claim C8. Two configurations that differ only in \<^verbatim>\<open>defaultDeny\<close> construct facades
  that differ only in that field; \<^verbatim>\<open>evaluate\<close> returns the same result (allowed, reason,
  matched policy and rule) under either value of the flag, \<^verbatim>\<open>check\<close> returns the same
  boolean and leaves the same state, audit log included; and when no rule of an enabled
  policy matches, the outcome is a denial under either value.
\<close>

theorem defaultDeny_never_branches:
  "newPermissionAPI (Some (c\<lparr>cfg_defaultDeny := x\<rparr>))
     = (newPermissionAPI (Some c))\<lparr>defaultDeny := (case x of None \<Rightarrow> True | Some b \<Rightarrow> b)\<rparr>
   \<and> evaluate (policyEngine (api\<lparr>defaultDeny := d\<rparr>)) tid req = evaluate (policyEngine api) tid req
   \<and> fst (check (api\<lparr>defaultDeny := d\<rparr>) tid req) = fst (check api tid req)
   \<and> snd (check (api\<lparr>defaultDeny := d\<rparr>) tid req) = (snd (check api tid req))\<lparr>defaultDeny := d\<rparr>
   \<and> ((\<forall>q\<in>set (filter enabled (listPolicies (policyEngine api) tid)). \<forall>r\<in>set (rules q).
          \<not> matchesRule r req) \<longrightarrow>
        \<not> allowed (evaluate (policyEngine (api\<lparr>defaultDeny := d\<rparr>)) tid req)
        \<and> \<not> fst (check (api\<lparr>defaultDeny := d\<rparr>) tid req))"
proof (intro conjI impI)
  show "newPermissionAPI (Some (c\<lparr>cfg_defaultDeny := x\<rparr>))
     = (newPermissionAPI (Some c))\<lparr>defaultDeny := (case x of None \<Rightarrow> True | Some b \<Rightarrow> b)\<rparr>"
    by (simp add: newPermissionAPI_def)
  show "evaluate (policyEngine (api\<lparr>defaultDeny := d\<rparr>)) tid req = evaluate (policyEngine api) tid req"
    by simp
  show "fst (check (api\<lparr>defaultDeny := d\<rparr>) tid req) = fst (check api tid req)"
    by (simp add: check_def Let_def)
  show "snd (check (api\<lparr>defaultDeny := d\<rparr>) tid req) = (snd (check api tid req))\<lparr>defaultDeny := d\<rparr>"
    by (simp add: check_def Let_def)
next
  assume h: "\<forall>q\<in>set (filter enabled (listPolicies (policyEngine api) tid)). \<forall>r\<in>set (rules q).
          \<not> matchesRule r req"
  then have "\<not> allowed (evaluate (policyEngine api) tid req)"
    by (intro evaluate_no_match_denies) blast
  then show "\<not> allowed (evaluate (policyEngine (api\<lparr>defaultDeny := d\<rparr>)) tid req)"
    and "\<not> fst (check (api\<lparr>defaultDeny := d\<rparr>) tid req)"
    by (simp_all add: check_fst)
qed

text \<open>An instance: with the flag set to false, a request that no rule matches is still
  denied, and a request that a rule allows is allowed as before.\<close>

theorem defaultDeny_never_branches_witness:
  "list_all (\<lambda>q. list_all (\<lambda>r. \<not> matchesRule r (agent_request ''doc:1'' ''read'')) (rules q))
      (filter enabled (listPolicies (policyEngine quiet_api) ''t1''))
   \<and> defaultDeny quiet_api
   \<and> \<not> allowed (evaluate (policyEngine (quiet_api\<lparr>defaultDeny := False\<rparr>)) ''t1''
                   (agent_request ''doc:1'' ''read''))
   \<and> \<not> fst (check (quiet_api\<lparr>defaultDeny := False\<rparr>) ''t1'' (agent_request ''doc:1'' ''read''))
   \<and> fst (check (quiet_api\<lparr>defaultDeny := False\<rparr>) ''t1'' (agent_request ''task:9'' ''read''))
   \<and> fst (check quiet_api ''t1'' (agent_request ''task:9'' ''read''))"
  using defaultDeny_never_branches
     [where c = "\<lparr>cfg_defaultDeny = None, cfg_auditAll = Some False\<rparr>" and x = "Some False"
        and api = quiet_api and d = False and tid = "''t1''"
        and req = "agent_request ''doc:1'' ''read''"]
    defaultDeny_never_branches
     [where c = "\<lparr>cfg_defaultDeny = None, cfg_auditAll = Some False\<rparr>" and x = "Some False"
        and api = quiet_api and d = False and tid = "''t1''"
        and req = "agent_request ''task:9'' ''read''"]
  by (simp add: quiet_api_def newPermissionAPI_def default_engine_list createAdminPolicy_def
        createAgentPolicy_def createPolicy_def agent_request_def matchesRule_def
        matchesAction_def pattern_eval Let_def check_fst example_engine_allows [unfolded agent_request_def])

section \<open>The facade: batches of checks\<close>

lemma checkMultiple_loop_snd:
  "snd (checkMultiple_loop api tid cs results) = foldl (\<lambda>a c. snd (check a tid c)) api cs"
  by (induction cs arbitrary: api results) (simp_all add: Let_def)

lemma foldl_check_config:
  "policyEngine (foldl (\<lambda>a c. snd (check a tid c)) api cs) = policyEngine api"
  "auditAll (foldl (\<lambda>a c. snd (check a tid c)) api cs) = auditAll api"
  by (induction cs arbitrary: api) (simp_all add: check_config)

lemma checkMultiple_loop_keys:
  "fst ` set (fst (checkMultiple_loop api tid cs results))
     = fst ` set results \<union> request_key ` set cs"
  by (induction cs arbitrary: api results) (auto simp: Let_def map_set_def dom_update)

lemma checkMultiple_loop_distinct:
  "distinct (map fst results) \<Longrightarrow>
     distinct (map fst (fst (checkMultiple_loop api tid cs results)))"
  by (induction cs arbitrary: api results) (simp_all add: Let_def map_set_def distinct_update)

lemma checkMultiple_loop_map:
  "map_of (fst (checkMultiple_loop api tid cs results)) k =
     (case filter (\<lambda>c. request_key c = k) cs of
        [] \<Rightarrow> map_of results k
      | x # xs \<Rightarrow> Some (allowed (evaluate (policyEngine api) tid (last (x # xs)))))"
proof (induction cs arbitrary: api results)
  case Nil
  show ?case by simp
next
  case (Cons c cs)
  show ?case
    by (simp add: Let_def Cons check_config check_fst map_set_def update_conv'
          split: list.split)
qed

lemma checkMultiple_entries:
  "auditAll api \<Longrightarrow>
     length (entries (auditLogger (foldl (\<lambda>a c. snd (check a tid c)) api cs)))
       = length (entries (auditLogger api)) + length cs"
proof (induction cs arbitrary: api)
  case Nil
  show ?case by simp
next
  case (Cons c cs)
  have "length (entries (auditLogger (snd (check api tid c))))
          = Suc (length (entries (auditLogger api)))"
    using Cons.prems by (simp add: check_def Let_def log_entry_def)
  then show ?case
    using Cons.prems Cons.IH [of "snd (check api tid c)"] by (simp add: check_config)
qed

text \<open>
  Claim C10. The result map of \<^verbatim>\<open>checkMultiple\<close> is keyed by the string
  \<^verbatim>\<open>actorId:action:resource\<close>: it has one entry for each key that occurs in the batch,
  and the entry of a key holds the result of the last request of the batch with that
  key. Every request is checked on its own, in order: the state after the batch is the
  state after checking the requests one after the other, and with \<^verbatim>\<open>auditAll\<close> the log
  grows by one entry for each request. In particular two requests that share actor id,
  action and resource, whatever their actor types and contexts, give a single entry
  with the result of the second.
\<close>

theorem checkMultiple_keyed_by_triple:
  "distinct (map fst (fst (checkMultiple api tid cs)))
   \<and> fst ` set (fst (checkMultiple api tid cs)) = request_key ` set cs
   \<and> map_of (fst (checkMultiple api tid cs)) k =
       (case filter (\<lambda>c. request_key c = k) cs of
          [] \<Rightarrow> None
        | x # xs \<Rightarrow> Some (allowed (evaluate (policyEngine api) tid (last (x # xs)))))
   \<and> snd (checkMultiple api tid cs) = foldl (\<lambda>a c. snd (check a tid c)) api cs
   \<and> (auditAll api \<longrightarrow>
        length (entries (auditLogger (snd (checkMultiple api tid cs))))
          = length (entries (auditLogger api)) + length cs)
   \<and> (actorId c1 = actorId c2 \<and> action c1 = action c2 \<and> resource c1 = resource c2 \<longrightarrow>
        fst (checkMultiple api tid [c1, c2])
          = [(actorId c2 @ '':'' @ action c2 @ '':'' @ resource c2,
              allowed (evaluate (policyEngine api) tid c2))])"
proof (intro conjI impI)
  show "distinct (map fst (fst (checkMultiple api tid cs)))"
    by (simp add: checkMultiple_def checkMultiple_loop_distinct)
  show "fst ` set (fst (checkMultiple api tid cs)) = request_key ` set cs"
    by (simp add: checkMultiple_def checkMultiple_loop_keys)
  show "map_of (fst (checkMultiple api tid cs)) k =
       (case filter (\<lambda>c. request_key c = k) cs of
          [] \<Rightarrow> None
        | x # xs \<Rightarrow> Some (allowed (evaluate (policyEngine api) tid (last (x # xs)))))"
    by (simp add: checkMultiple_def checkMultiple_loop_map split: list.split)
  show "snd (checkMultiple api tid cs) = foldl (\<lambda>a c. snd (check a tid c)) api cs"
    by (simp add: checkMultiple_def checkMultiple_loop_snd)
next
  assume "auditAll api"
  then show "length (entries (auditLogger (snd (checkMultiple api tid cs))))
          = length (entries (auditLogger api)) + length cs"
    by (simp add: checkMultiple_def checkMultiple_loop_snd checkMultiple_entries)
next
  assume "actorId c1 = actorId c2 \<and> action c1 = action c2 \<and> resource c1 = resource c2"
  then show "fst (checkMultiple api tid [c1, c2])
          = [(actorId c2 @ '':'' @ action c2 @ '':'' @ resource c2,
              allowed (evaluate (policyEngine api) tid c2))]"
    by (simp add: checkMultiple_def Let_def request_key_def map_set_def check_fst check_config)
qed

lemma typed_request_eval:
  "allowed (evaluate default_engine ''t1'' (typed_request ''agent''))"
  "\<not> allowed (evaluate default_engine ''t1'' (typed_request ''user''))"
  by (simp_all add: evaluate_def default_engine_list createAdminPolicy_def createAgentPolicy_def
        createPolicy_def typed_request_def matchesRule_def matchesAction_def pattern_eval
        scanRules.simps matched_reason_def dquote_def show_nat.simps Let_def
        condition_rejects_def ctx_get_def object_prototype_def)

text \<open>An instance: the same actor id, action and resource, once as an agent (allowed)
  and once as a user (denied). The map has the single entry \<open>False\<close>; the log has two
  entries.\<close>

theorem checkMultiple_keyed_by_triple_witness:
  "auditAll loud_api
   \<and> actorId (typed_request ''agent'') = actorId (typed_request ''user'')
   \<and> action (typed_request ''agent'') = action (typed_request ''user'')
   \<and> resource (typed_request ''agent'') = resource (typed_request ''user'')
   \<and> allowed (evaluate (policyEngine loud_api) ''t1'' (typed_request ''agent''))
   \<and> fst (checkMultiple loud_api ''t1'' [typed_request ''agent'', typed_request ''user''])
       = [(''x1:read:task:9'', False)]
   \<and> length (entries (auditLogger
         (snd (checkMultiple loud_api ''t1'' [typed_request ''agent'', typed_request ''user''])))) = 2"
proof -
  note t = checkMultiple_keyed_by_triple
    [where api = loud_api and tid = "''t1''"
       and cs = "[typed_request ''agent'', typed_request ''user'']"
       and ?c1.0 = "typed_request ''agent''" and ?c2.0 = "typed_request ''user''"
       and k = "''x1:read:task:9''"]
  have a: "auditAll loud_api" and e: "policyEngine loud_api = default_engine"
    and n: "entries (auditLogger loud_api) = []"
    by (simp_all add: loud_api_def newPermissionAPI_def newAuditLogger_def)
  have k: "actorId (typed_request ''agent'') = actorId (typed_request ''user'')
     \<and> action (typed_request ''agent'') = action (typed_request ''user'')
     \<and> resource (typed_request ''agent'') = resource (typed_request ''user'')"
    by (simp add: typed_request_def)
  have "length (entries (auditLogger
         (snd (checkMultiple loud_api ''t1'' [typed_request ''agent'', typed_request ''user'']))))
       = length (entries (auditLogger loud_api))
         + length [typed_request ''agent'', typed_request ''user'']"
    using t a by blast
  moreover have "fst (checkMultiple loud_api ''t1'' [typed_request ''agent'', typed_request ''user''])
       = [(actorId (typed_request ''user'') @ '':'' @ action (typed_request ''user'') @ '':''
             @ resource (typed_request ''user''),
           allowed (evaluate (policyEngine loud_api) ''t1'' (typed_request ''user'')))]"
    using t k by blast
  ultimately show ?thesis
    using a e n k typed_request_eval by (simp add: typed_request_def)
qed

section \<open>The store: invariant, listing, creation\<close>

lemma store_invI:
  assumes "\<And>i p. policies e i = Some p \<Longrightarrow> policyId p = i"
    and "\<And>i p. policies e i = Some p \<Longrightarrow> \<exists>s. tenantPolicies e (tenantId p) = Some s \<and> i \<in> set s"
    and "\<And>t s. tenantPolicies e t = Some s \<Longrightarrow> filter (\<lambda>i. i \<in> set s) seen = s"
    and "\<And>t s i. tenantPolicies e t = Some s \<Longrightarrow> i \<in> set s \<Longrightarrow>
           \<exists>p. policies e i = Some p \<and> tenantId p = t"
  shows "store_inv e seen"
  unfolding store_inv_def using assms by blast

lemma store_inv_id: "store_inv e seen \<Longrightarrow> policies e i = Some p \<Longrightarrow> policyId p = i"
  unfolding store_inv_def by blast

lemma store_inv_indexed:
  "store_inv e seen \<Longrightarrow> policies e i = Some p \<Longrightarrow>
     \<exists>s. tenantPolicies e (tenantId p) = Some s \<and> i \<in> set s"
  unfolding store_inv_def by blast

lemma store_inv_order:
  "store_inv e seen \<Longrightarrow> tenantPolicies e t = Some s \<Longrightarrow> filter (\<lambda>i. i \<in> set s) seen = s"
  unfolding store_inv_def by blast

lemma store_inv_owned:
  "store_inv e seen \<Longrightarrow> tenantPolicies e t = Some s \<Longrightarrow> i \<in> set s \<Longrightarrow>
     \<exists>p. policies e i = Some p \<and> tenantId p = t"
  unfolding store_inv_def by blast

lemma store_inv_seen:
  assumes "store_inv e seen" "tenantPolicies e t = Some s" "i \<in> set s"
  shows "i \<in> set seen"
proof -
  have "filter (\<lambda>i. i \<in> set s) seen = s" using assms(1,2) by (rule store_inv_order)
  then have "set s \<subseteq> set seen" by (metis filter_is_subset)
  with assms(3) show ?thesis by blast
qed

lemma store_inv_empty: "store_inv newPolicyEngine []"
  by (simp add: store_inv_def newPolicyEngine_def)

lemma createPolicy_fst:
  "policyId (fst (createPolicy e tid nm rs options nid now)) = nid"
  "tenantId (fst (createPolicy e tid nm rs options nid now)) = tid"
  "name (fst (createPolicy e tid nm rs options nid now)) = nm"
  "rules (fst (createPolicy e tid nm rs options nid now)) = rs"
  by (simp_all add: createPolicy_def Let_def)

lemma createPolicy_snd:
  "policies (snd (createPolicy e tid nm rs options nid now))
     = (policies e)(nid \<mapsto> fst (createPolicy e tid nm rs options nid now))"
  "tenantPolicies (snd (createPolicy e tid nm rs options nid now))
     = (tenantPolicies e)(tid \<mapsto>
          set_add (case tenantPolicies e tid of None \<Rightarrow> [] | Some s \<Rightarrow> s) nid)"
  by (simp_all add: createPolicy_def Let_def)

lemma store_inv_create:
  assumes inv: "store_inv e seen" and fresh: "nid \<notin> set seen"
  shows "store_inv (snd (createPolicy e tid nm rs options nid now)) (seen @ [nid])"
proof -
  let ?p = "fst (createPolicy e tid nm rs options nid now)"
  let ?e = "snd (createPolicy e tid nm rs options nid now)"
  define s0 where "s0 = (case tenantPolicies e tid of None \<Rightarrow> [] | Some s \<Rightarrow> s)"
  have notin: "nid \<notin> set s" if "tenantPolicies e t = Some s" for t s
    using store_inv_seen [OF inv that] fresh by blast
  have s0: "nid \<notin> set s0"
    unfolding s0_def using notin by (auto split: option.split)
  have pol: "policies ?e = (policies e)(nid \<mapsto> ?p)"
    by (rule createPolicy_snd)
  have idx: "tenantPolicies ?e = (tenantPolicies e)(tid \<mapsto> s0 @ [nid])"
    using s0 by (simp add: createPolicy_snd s0_def [symmetric] set_add_def)
  have s0_old: "i \<in> set s0 \<Longrightarrow> \<exists>s'. tenantPolicies e tid = Some s' \<and> i \<in> set s'" for i
    unfolding s0_def by (cases "tenantPolicies e tid") auto
  have s0_order: "filter (\<lambda>i. i \<in> set s0) seen = s0"
    unfolding s0_def using store_inv_order [OF inv] by (cases "tenantPolicies e tid") auto
  show ?thesis
  proof (rule store_invI)
    fix i p assume h: "policies ?e i = Some p"
    show "policyId p = i"
      using h store_inv_id [OF inv] by (auto simp: pol createPolicy_fst split: if_splits)
    show "\<exists>s. tenantPolicies ?e (tenantId p) = Some s \<and> i \<in> set s"
    proof (cases "i = nid")
      case True
      then show ?thesis using h by (auto simp: pol idx createPolicy_fst)
    next
      case False
      then have "policies e i = Some p" using h by (simp add: pol)
      then obtain s where "tenantPolicies e (tenantId p) = Some s" "i \<in> set s"
        using store_inv_indexed [OF inv] by blast
      then show ?thesis by (auto simp: idx s0_def)
    qed
  next
    fix t s assume h: "tenantPolicies ?e t = Some s"
    show "filter (\<lambda>i. i \<in> set s) (seen @ [nid]) = s"
    proof (cases "t = tid")
      case True
      then have s: "s = s0 @ [nid]" using h by (simp add: idx)
      have "filter (\<lambda>i. i \<in> set (s0 @ [nid])) seen = filter (\<lambda>i. i \<in> set s0) seen"
        using fresh by (intro filter_cong) auto
      then have "filter (\<lambda>i. i \<in> set (s0 @ [nid])) seen = s0"
        by (simp only: s0_order)
      then show ?thesis unfolding s by simp
    next
      case False
      then have old: "tenantPolicies e t = Some s" using h by (simp add: idx)
      then show ?thesis using store_inv_order [OF inv old] notin [OF old] by simp
    qed
  next
    fix t s i assume h: "tenantPolicies ?e t = Some s" and i: "i \<in> set s"
    show "\<exists>p. policies ?e i = Some p \<and> tenantId p = t"
    proof (cases "i = nid")
      case True
      have "t = tid"
      proof (rule ccontr)
        assume "t \<noteq> tid"
        then have "tenantPolicies e t = Some s" using h by (simp add: idx)
        then show False using notin i True by blast
      qed
      then show ?thesis using True by (simp add: pol createPolicy_fst)
    next
      case False
      have "\<exists>s'. tenantPolicies e t = Some s' \<and> i \<in> set s'"
      proof (cases "t = tid")
        case True
        then have "s = s0 @ [nid]" using h by (simp add: idx)
        then have "i \<in> set s0" using i False by simp
        then show ?thesis using True s0_old by blast
      next
        case False
        then show ?thesis using h i by (simp add: idx)
      qed
      then obtain p where "policies e i = Some p" "tenantId p = t"
        using store_inv_owned [OF inv] by blast
      then show ?thesis using False by (simp add: pol)
    qed
  qed
qed


text \<open>An update that carries neither the key \<^verbatim>\<open>id\<close> nor the key \<^verbatim>\<open>tenantId\<close> leaves both
  fields as they are, and keeps the invariant.\<close>

lemma merge_updates_fixed:
  "upd_id u = None \<Longrightarrow> policyId (merge_updates p u) = policyId p"
  "upd_tenantId u = None \<Longrightarrow> tenantId (merge_updates p u) = tenantId p"
  by (simp_all add: merge_updates_def)

lemma store_inv_update:
  assumes inv: "store_inv e seen" and keep: "upd_id u = None" "upd_tenantId u = None"
  shows "store_inv (snd (updatePolicy e i u)) seen"
proof (cases "policies e i")
  case None
  then show ?thesis using inv by (simp add: updatePolicy_def)
next
  case (Some q)
  let ?e = "snd (updatePolicy e i u)"
  have pol: "policies ?e = (policies e)(i \<mapsto> merge_updates q u)"
    and idx: "tenantPolicies ?e = tenantPolicies e"
    using Some by (simp_all add: updatePolicy_def Let_def)
  show ?thesis
  proof (rule store_invI)
    fix j p assume h: "policies ?e j = Some p"
    show "policyId p = j"
      using h store_inv_id [OF inv] Some
      by (auto simp: pol merge_updates_fixed(1) [OF keep(1)] split: if_splits)
    show "\<exists>s. tenantPolicies ?e (tenantId p) = Some s \<and> j \<in> set s"
      using h store_inv_indexed [OF inv] Some
      by (auto simp: pol idx merge_updates_fixed(2) [OF keep(2)] split: if_splits)
  next
    fix t s assume "tenantPolicies ?e t = Some s"
    then show "filter (\<lambda>i. i \<in> set s) seen = s"
      using store_inv_order [OF inv] by (simp add: idx)
  next
    fix t s j assume "tenantPolicies ?e t = Some s" "j \<in> set s"
    then obtain p where p: "policies e j = Some p" "tenantId p = t"
      using store_inv_owned [OF inv, of t s j] by (auto simp: idx)
    show "\<exists>p. policies ?e j = Some p \<and> tenantId p = t"
      using p Some by (cases "j = i") (auto simp: pol merge_updates_fixed(2) [OF keep(2)])
  qed
qed

lemma store_inv_delete:
  assumes inv: "store_inv e seen"
  shows "store_inv (snd (deletePolicy e i)) seen"
proof (cases "policies e i")
  case None
  then show ?thesis using inv by (simp add: deletePolicy_def)
next
  case (Some q)
  then obtain s0 where s0: "tenantPolicies e (tenantId q) = Some s0" "i \<in> set s0"
    using store_inv_indexed [OF inv] by blast
  let ?e = "snd (deletePolicy e i)"
  have pol: "policies ?e = (policies e)(i := None)"
    and idx: "tenantPolicies ?e = (tenantPolicies e)(tenantId q \<mapsto> removeAll i s0)"
    using Some s0 by (simp_all add: deletePolicy_def Let_def set_delete_def)
  have other: "i \<notin> set s" if h1: "tenantPolicies e t = Some s" and h2: "t \<noteq> tenantId q" for t s
  proof
    assume "i \<in> set s"
    then obtain p where "policies e i = Some p" "tenantId p = t"
      using store_inv_owned [OF inv h1] by blast
    then show False using Some h2 by simp
  qed
  show ?thesis
  proof (rule store_invI)
    fix j p assume h: "policies ?e j = Some p"
    then have j: "j \<noteq> i" and old: "policies e j = Some p"
      by (auto simp: pol split: if_splits)
    show "policyId p = j" using old by (rule store_inv_id [OF inv])
    obtain s where s: "tenantPolicies e (tenantId p) = Some s" "j \<in> set s"
      using store_inv_indexed [OF inv old] by blast
    show "\<exists>s. tenantPolicies ?e (tenantId p) = Some s \<and> j \<in> set s"
      using s j s0 by (cases "tenantId p = tenantId q") (auto simp: idx)
  next
    fix t s assume h: "tenantPolicies ?e t = Some s"
    show "filter (\<lambda>i. i \<in> set s) seen = s"
    proof (cases "t = tenantId q")
      case True
      then have s: "s = removeAll i s0" using h by (simp add: idx)
      have "filter (\<lambda>j. j \<in> set (removeAll i s0)) seen
              = filter (\<lambda>j. j \<noteq> i) (filter (\<lambda>j. j \<in> set s0) seen)"
        by (auto simp: filter_filter intro: filter_cong)
      also have "\<dots> = filter (\<lambda>j. j \<noteq> i) s0"
        using store_inv_order [OF inv s0(1)] by simp
      also have "\<dots> = removeAll i s0"
        by (induction s0) auto
      finally show ?thesis unfolding s .
    next
      case False
      then show ?thesis using h store_inv_order [OF inv] by (simp add: idx)
    qed
  next
    fix t s j assume h: "tenantPolicies ?e t = Some s" and j: "j \<in> set s"
    have "j \<noteq> i \<and> (\<exists>s'. tenantPolicies e t = Some s' \<and> j \<in> set s')"
    proof (cases "t = tenantId q")
      case True
      then have "s = removeAll i s0" using h by (simp add: idx)
      then show ?thesis using j s0 True by auto
    next
      case False
      then have "tenantPolicies e t = Some s" using h by (simp add: idx)
      then show ?thesis using other False j by blast
    qed
    then obtain p where "j \<noteq> i" "policies e j = Some p" "tenantId p = t"
      using store_inv_owned [OF inv] by blast
    then show "\<exists>p. policies ?e j = Some p \<and> tenantId p = t"
      by (simp add: pol)
  qed
qed

lemma run_snoc: "run (ops @ [x]) = apply_op (run ops) x"
  by (simp add: run_def)

lemma created_ids_append: "created_ids (ops @ ops') = created_ids ops @ created_ids ops'"
  by (induction ops rule: created_ids.induct) simp_all

lemma store_inv_run:
  "distinct (created_ids ops) \<Longrightarrow> list_all keeps_identity ops \<Longrightarrow>
     store_inv (run ops) (created_ids ops)"
proof (induction ops rule: rev_induct)
  case Nil
  show ?case by (simp add: run_def store_inv_empty)
next
  case (snoc x ops)
  then have inv: "store_inv (run ops) (created_ids ops)"
    by (simp add: created_ids_append)
  show ?case
  proof (cases x)
    case (Create tid nm rs options nid now)
    then have "nid \<notin> set (created_ids ops)"
      using snoc.prems by (simp add: created_ids_append)
    then show ?thesis
      using inv Create by (simp add: run_snoc created_ids_append store_inv_create)
  next
    case (Update i u)
    then have "upd_id u = None" "upd_tenantId u = None"
      using snoc.prems by simp_all
    then show ?thesis
      using inv Update by (simp add: run_snoc created_ids_append store_inv_update)
  next
    case (Delete i)
    then show ?thesis
      using inv by (simp add: run_snoc created_ids_append store_inv_delete)
  qed
qed


lemma listPolicies_inv:
  assumes inv: "store_inv e seen" and idx: "tenantPolicies e t = Some s"
  shows "listPolicies e t = sort_key (\<lambda>p. - priority p) (map (\<lambda>i. the (policies e i)) s)"
proof -
  have "policies e i \<noteq> None" if "i \<in> set s" for i
    using store_inv_owned [OF inv idx that] by auto
  then have "filter (\<lambda>x. x \<noteq> None) (map (policies e) s) = map (policies e) s"
    by (auto simp: filter_id_conv)
  then show ?thesis
    using idx by (simp add: listPolicies_def comp_def)
qed

lemma listPolicies_owned:
  assumes inv: "store_inv e seen" and p: "p \<in> set (listPolicies e t)"
  shows "tenantId p = t \<and> policies e (policyId p) = Some p"
proof (cases "tenantPolicies e t")
  case None
  then show ?thesis using p by (simp add: listPolicies_def)
next
  case (Some s)
  then obtain i where i: "i \<in> set s" "p = the (policies e i)"
    using p by (auto simp: listPolicies_inv [OF inv Some])
  then obtain q where q: "policies e i = Some q" "tenantId q = t"
    using store_inv_owned [OF inv Some] by blast
  then have "policyId q = i" using store_inv_id [OF inv] by blast
  then show ?thesis using i q by simp
qed

lemma listPolicies_complete:
  assumes inv: "store_inv e seen" and p: "policies e i = Some p"
  shows "p \<in> set (listPolicies e (tenantId p))"
proof -
  obtain s where s: "tenantPolicies e (tenantId p) = Some s" "i \<in> set s"
    using store_inv_indexed [OF inv p] by blast
  have "the (policies e i) \<in> (\<lambda>i. the (policies e i)) ` set s"
    using s(2) by (rule imageI)
  then show ?thesis
    using p by (simp add: listPolicies_inv [OF inv s(1)])
qed

lemma listPolicies_descending:
  "sorted_wrt (\<lambda>p q. priority q \<le> priority p) (listPolicies e t)"
proof -
  have "sorted (map (\<lambda>p. - priority p) (listPolicies e t))"
    by (simp add: listPolicies_def split: option.split)
  then show ?thesis by (simp add: sorted_map)
qed

lemma listPolicies_ties:
  assumes inv: "store_inv e seen"
  shows "map policyId (filter (\<lambda>p. priority p = k) (listPolicies e t)) =
     filter (\<lambda>i. case policies e i of None \<Rightarrow> False
                  | Some p \<Rightarrow> tenantId p = t \<and> priority p = k) seen"
proof (cases "tenantPolicies e t")
  case None
  have "\<not> (case policies e i of None \<Rightarrow> False | Some p \<Rightarrow> tenantId p = t \<and> priority p = k)"
    for i
    using store_inv_indexed [OF inv, of i] None by (auto split: option.split)
  then show ?thesis using None by (simp add: listPolicies_def)
next
  case (Some s)
  let ?g = "\<lambda>i. the (policies e i)"
  have own: "\<exists>p. policies e i = Some p \<and> tenantId p = t \<and> policyId p = i" if "i \<in> set s" for i
    using store_inv_owned [OF inv Some that] store_inv_id [OF inv] by blast
  have own': "policyId (?g i) = i" if "i \<in> set s" for i
    using own [OF that] by auto
  have "filter (\<lambda>p. priority p = k) (listPolicies e t)
          = filter (\<lambda>p. - priority p = - k) (sort_key (\<lambda>p. - priority p) (map ?g s))"
    by (simp add: listPolicies_inv [OF inv Some])
  also have "\<dots> = filter (\<lambda>p. - priority p = - k) (map ?g s)"
    by (rule sort_key_stable)
  also have "\<dots> = map ?g (filter (\<lambda>i. priority (?g i) = k) s)"
    by (simp add: filter_map comp_def)
  finally have "map policyId (filter (\<lambda>p. priority p = k) (listPolicies e t))
                  = map (\<lambda>i. policyId (?g i)) (filter (\<lambda>i. priority (?g i) = k) s)"
    by (simp add: comp_def)
  also have "\<dots> = filter (\<lambda>i. priority (?g i) = k) s"
    using own' by (intro map_idI) simp
  also have "\<dots> = filter (\<lambda>i. priority (?g i) = k) (filter (\<lambda>i. i \<in> set s) seen)"
    by (simp only: store_inv_order [OF inv Some])
  also have "\<dots> = filter (\<lambda>i. case policies e i of None \<Rightarrow> False
                  | Some p \<Rightarrow> tenantId p = t \<and> priority p = k) seen"
    unfolding filter_filter
  proof (rule filter_cong [OF refl])
    fix i
    show "(i \<in> set s \<and> priority (?g i) = k)
           = (case policies e i of None \<Rightarrow> False | Some p \<Rightarrow> tenantId p = t \<and> priority p = k)"
    proof (cases "i \<in> set s")
      case True
      then show ?thesis using own [OF True] by auto
    next
      case False
      have "tenantId p \<noteq> t" if "policies e i = Some p" for p
        using store_inv_indexed [OF inv that] Some False by auto
      then show ?thesis using False by (auto split: option.split)
    qed
  qed
  finally show ?thesis .
qed


text \<open>
  Where the listing is as the spec describes it: after a sequence of calls on a new
  store in which \<^verbatim>\<open>nanoid()\<close> returned a new id at each call and no update carried the
  key \<^verbatim>\<open>id\<close> or \<^verbatim>\<open>tenantId\<close>, \<^verbatim>\<open>listPolicies(tenantId)\<close> returns exactly the stored
  policies of that tenant, by descending priority, those of equal priority in the order
  of their creation.
\<close>

lemma listPolicies_when_identity_kept:
  assumes "distinct (created_ids ops)" and "list_all keeps_identity ops"
  shows "set (listPolicies (run ops) t) = {p \<in> ran (policies (run ops)). tenantId p = t}
    \<and> sorted_wrt (\<lambda>p q. priority q \<le> priority p) (listPolicies (run ops) t)
    \<and> map policyId (filter (\<lambda>p. priority p = k) (listPolicies (run ops) t)) =
        filter (\<lambda>i. case policies (run ops) i of None \<Rightarrow> False
                     | Some p \<Rightarrow> tenantId p = t \<and> priority p = k) (created_ids ops)"
proof -
  have inv: "store_inv (run ops) (created_ids ops)"
    using assms by (rule store_inv_run)
  have "set (listPolicies (run ops) t) = {p \<in> ran (policies (run ops)). tenantId p = t}"
  proof (intro set_eqI iffI)
    fix p assume "p \<in> set (listPolicies (run ops) t)"
    then have "tenantId p = t \<and> policies (run ops) (policyId p) = Some p"
      by (rule listPolicies_owned [OF inv])
    then show "p \<in> {p \<in> ran (policies (run ops)). tenantId p = t}"
      by (auto simp: ran_def)
  next
    fix p assume "p \<in> {p \<in> ran (policies (run ops)). tenantId p = t}"
    then obtain i where "policies (run ops) i = Some p" "tenantId p = t"
      by (auto simp: ran_def)
    then show "p \<in> set (listPolicies (run ops) t)"
      using listPolicies_complete [OF inv, of i p] by simp
  qed
  then show ?thesis
    using listPolicies_descending listPolicies_ties [OF inv] by simp
qed

lemma listPolicies_isolated_when_identity_kept:
  assumes "distinct (created_ids ops)" and "list_all keeps_identity ops"
  shows "list_all (\<lambda>p. tenantId p = t) (listPolicies (run ops) t)"
proof -
  have inv: "store_inv (run ops) (created_ids ops)"
    using assms by (rule store_inv_run)
  show ?thesis
    unfolding list_all_iff using listPolicies_owned [OF inv] by blast
qed

lemma example_ops_run:
  "distinct (created_ids example_ops)"
  "list_all keeps_identity example_ops"
  "map policyId (listPolicies (run example_ops) ''t1'') = [''p2'', ''p1'', ''p5'']"
  "map priority (listPolicies (run example_ops) ''t1'') = [9, 5, 5]"
  "map policyId (listPolicies (run example_ops) ''t2'') = [''p3'']"
  by (simp_all add: example_ops_def with_priority_def run_def newPolicyEngine_def
        createPolicy_def updatePolicy_def deletePolicy_def merge_updates_def listPolicies_def
        set_add_def set_delete_def Let_def)

lemmas store_eval = with_priority_def run_def newPolicyEngine_def createPolicy_def
        updatePolicy_def merge_updates_def listPolicies_def getPolicy_def set_add_def Let_def

text \<open>
  Claim C6. The claim says that \<^verbatim>\<open>listPolicies(tenantId)\<close> returns all of that tenant's
  policies. \<^verbatim>\<open>updatePolicy\<close> spreads the updates over the policy without a filter, so
  an object that carries the key \<^verbatim>\<open>tenantId\<close> changes the tenant of the stored policy
  and leaves the index of tenants as it was. After two creations and the update of
  \<^verbatim>\<open>p1\<close> with \<^verbatim>\<open>{name: 'N', tenantId: 't2'}\<close>, the policy stored under \<^verbatim>\<open>p1\<close> is a policy
  of \<^verbatim>\<open>t2\<close>; the listing of \<^verbatim>\<open>t2\<close> has \<^verbatim>\<open>p2\<close> alone and the listing of \<^verbatim>\<open>t1\<close> has
  \<^verbatim>\<open>p1\<close>: the listing of \<^verbatim>\<open>t2\<close> is not the set of the stored policies of \<^verbatim>\<open>t2\<close>.
\<close>

theorem listPolicies_misses_moved_policy:
  "distinct (created_ids retenant_ops)
   \<and> map_option tenantId (getPolicy (run retenant_ops) ''p1'') = Some ''t2''
   \<and> map policyId (listPolicies (run retenant_ops) ''t2'') = [''p2'']
   \<and> map policyId (listPolicies (run retenant_ops) ''t1'') = [''p1'']
   \<and> set (listPolicies (run retenant_ops) ''t2'')
       \<noteq> {p \<in> ran (policies (run retenant_ops)). tenantId p = ''t2''}"
proof -
  let ?moved = "\<lparr>policyId = ''p1'', tenantId = ''t2'', name = ''N'', description = None,
                  rules = [], priority = 5, enabled = True, createdAt = 0\<rparr>"
  have d: "distinct (created_ids retenant_ops)"
    by (simp add: retenant_ops_def two_tenants_def)
  have stored: "policies (run retenant_ops) ''p1'' = Some ?moved"
    by (simp add: retenant_ops_def two_tenants_def store_eval)
  have l2: "map policyId (listPolicies (run retenant_ops) ''t2'') = [''p2'']"
    and l1: "map policyId (listPolicies (run retenant_ops) ''t1'') = [''p1'']"
    by (simp_all add: retenant_ops_def two_tenants_def store_eval)
  have "?moved \<in> {p \<in> ran (policies (run retenant_ops)). tenantId p = ''t2''}"
    using stored by (simp add: ranI)
  moreover have "?moved \<notin> set (listPolicies (run retenant_ops) ''t2'')"
  proof
    assume "?moved \<in> set (listPolicies (run retenant_ops) ''t2'')"
    then have "policyId ?moved \<in> set (map policyId (listPolicies (run retenant_ops) ''t2''))"
      unfolding set_map by (rule imageI)
    then show False by (simp add: l2)
  qed
  ultimately have "set (listPolicies (run retenant_ops) ''t2'')
       \<noteq> {p \<in> ran (policies (run retenant_ops)). tenantId p = ''t2''}"
    by blast
  then show ?thesis
    using d stored l1 l2 by (simp add: getPolicy_def)
qed

text \<open>
  Claim C7. The claim says that \<^verbatim>\<open>listPolicies(tenantId)\<close> never returns a policy of
  another tenant, in any state reached by \<^verbatim>\<open>createPolicy\<close>, \<^verbatim>\<open>updatePolicy\<close> and
  \<^verbatim>\<open>deletePolicy\<close>. After one policy is created for \<^verbatim>\<open>t1\<close> and one for \<^verbatim>\<open>t2\<close>, the call
  \<^verbatim>\<open>updatePolicy('p1', getPolicy('p2'))\<close> copies every key of the second policy,
  \<^verbatim>\<open>tenantId\<close> among them, and \<^verbatim>\<open>listPolicies('t1')\<close> returns a policy whose tenant is
  \<^verbatim>\<open>t2\<close>.
\<close>

theorem listPolicies_returns_other_tenant:
  "distinct (created_ids two_tenants)
   \<and> getPolicy (run two_tenants) ''p2''
       = Some \<lparr>policyId = ''p2'', tenantId = ''t2'', name = ''B'', description = None,
               rules = [], priority = 5, enabled = True, createdAt = 1\<rparr>
   \<and> map tenantId
        (listPolicies
           (snd (updatePolicy (run two_tenants) ''p1''
                   (as_updates \<lparr>policyId = ''p2'', tenantId = ''t2'', name = ''B'',
                                description = None, rules = [], priority = 5,
                                enabled = True, createdAt = 1\<rparr>)))
           ''t1'')
       = [''t2'']"
  by (simp add: two_tenants_def as_updates_def store_eval)


text \<open>
  Claim C9, as amended. The claim says that \<^verbatim>\<open>createPolicy\<close> rejects malformed rules
  with a ConfigurationError. The code has no such error and validates nothing:
  for every rule list \<^verbatim>\<open>createPolicy\<close> returns a policy with exactly these rules and
  stores it under the new id and in the index of its tenant.
\<close>

theorem createPolicy_never_rejects:
  "rules (fst (createPolicy e tid nm rs options nid now)) = rs
   \<and> policyId (fst (createPolicy e tid nm rs options nid now)) = nid
   \<and> tenantId (fst (createPolicy e tid nm rs options nid now)) = tid
   \<and> getPolicy (snd (createPolicy e tid nm rs options nid now)) nid
       = Some (fst (createPolicy e tid nm rs options nid now))
   \<and> (\<exists>s. tenantPolicies (snd (createPolicy e tid nm rs options nid now)) tid = Some s
          \<and> nid \<in> set s)"
  by (simp add: createPolicy_fst createPolicy_snd getPolicy_def set_add_def)

text \<open>The claim as stated fails: a rule whose condition has the operator \<^verbatim>\<open>regex\<close>
  is accepted and stored, and evaluation then allows a guest through it.\<close>

theorem createPolicy_accepts_unknown_operator:
  "operator (hd (the (conditions unchecked_rule))) \<notin> set known_operators
   \<and> getPolicy (snd (createPolicy newPolicyEngine ''t1'' ''Unchecked'' [unchecked_rule] None ''p9'' 0)) ''p9''
       = Some \<lparr>policyId = ''p9'', tenantId = ''t1'', name = ''Unchecked'', description = None,
               rules = [unchecked_rule], priority = 0, enabled = True, createdAt = 0\<rparr>
   \<and> allowed (evaluate
        (snd (createPolicy newPolicyEngine ''t1'' ''Unchecked'' [unchecked_rule] None ''p9'' 0))
        ''t1'' guest_request)"
  by (simp add: createPolicy_def getPolicy_def newPolicyEngine_def set_add_def Let_def
        known_operators_def unchecked_rule_def guest_request_def evaluate_def listPolicies_def
        scanRules.simps matchesRule_def matchesAction_def pattern_eval condition_rejects_def
        ctx_get_def object_prototype_def)

end
